theory Spec2Isabelle
  imports Complex_Main "HOL-Library.Sublist" "HOL-Library.AList"
begin

section \<open>Processing tasks\<close>

text \<open>
  Modelled from the spec: \<^verbatim>\<open>models/ProcessingTask.ts\<close>, which declares \<^verbatim>\<open>TaskType\<close>,
  \<^verbatim>\<open>TaskStatus\<close> and \<^verbatim>\<open>ProcessingTask\<close>, is not among the sources. The fields and
  members below are those that \<^verbatim>\<open>InitialSyncManager.processFile\<close> and the tests write
  and that section 3 of the specification names. The payload \<^verbatim>\<open>metadata\<close> is opaque to
  the queue, hence a type parameter.
\<close>

datatype task_type = CREATE | UPDATE | DELETE

datatype task_status = PENDING | QUEUED_DURING_INIT | PROCESSING | COMPLETED | FAILED

record 'm processing_task =
  task_id :: string
  task_type :: task_type
  priority :: int
  maxRetries :: int
  retryCount :: int
  createdAt :: int
  updatedAt :: int
  task_status :: task_status
  task_metadata :: 'm

section \<open>Task queue: admission and coalescing\<close>

text \<open>
  Modelled from the spec: \<^verbatim>\<open>services/QueueService.ts\<close> (\<^verbatim>\<open>QueueService.addTask\<close>)
  is not among the sources; only its test \<^verbatim>\<open>tests/QueueService.edgeCases.test.ts\<close> is.
  The test reads the private field \<^verbatim>\<open>queue\<close> as an array of tasks, so the queue is a
  task list. Section 4.1 of the specification gives the contract of \<^verbatim>\<open>enqueue\<close>:
  first the admission check, \<^emph>\<open>otherwise\<close> the coalescing rules keyed by the task id.

  The admission check compares the number of queued entries with the bound. On a queue
  with one entry per identity this is the number of distinct identities of the
  specification (lemma \<open>distinct_identities_length\<close>); on the array of 1000 copies of one
  task that the first test installs, it is what makes the call fail.

  The specification gives no rule for a DELETE arriving on a queued DELETE; the entry then
  stored is the parameter \<open>resolveDeleteOnDelete\<close>, constrained only to remain a DELETE
  of that identity.
\<close>

datatype queue_error = QueueFullError

record 'm queue_config =
  maxQueueSize :: nat
  resolveDeleteOnDelete :: "'m processing_task \<Rightarrow> 'm processing_task \<Rightarrow> 'm processing_task"

definition boostedPriority :: int where
  "boostedPriority = 3"

definition distinct_identities :: "'m processing_task list \<Rightarrow> nat" where
  "distinct_identities q = length (remdups (map task_id q))"

fun findIndex :: "('a \<Rightarrow> bool) \<Rightarrow> 'a list \<Rightarrow> nat option" where
  "findIndex P [] = None"
| "findIndex P (x # xs) =
     (if P x then Some 0 else map_option Suc (findIndex P xs))"

definition coalesce ::
  "'m queue_config \<Rightarrow> 'm processing_task \<Rightarrow> 'm processing_task \<Rightarrow> 'm processing_task option"
where
  "coalesce cfg existing incoming =
     (if task_type existing = DELETE then
        (if task_type incoming = DELETE
         then Some ((resolveDeleteOnDelete cfg existing incoming)
                      \<lparr>task_id := task_id incoming, task_type := DELETE\<rparr>)
         else None)
      else if task_type incoming = DELETE
        then Some (incoming\<lparr>priority := boostedPriority\<rparr>)
        else Some (incoming\<lparr>priority := max (priority existing) (priority incoming)\<rparr>))"

definition addTask ::
  "'m queue_config \<Rightarrow> 'm processing_task list \<Rightarrow> 'm processing_task
     \<Rightarrow> queue_error + 'm processing_task list"
where
  "addTask cfg q t =
     (if maxQueueSize cfg \<le> length q then Inl QueueFullError
      else case findIndex (\<lambda>e. task_id e = task_id t) q of
             None \<Rightarrow> Inr (q @ [t])
           | Some i \<Rightarrow>
               (case coalesce cfg (q ! i) t of
                  None \<Rightarrow> Inr q
                | Some t' \<Rightarrow> Inr (q[i := t'])))"

text \<open>
  A sequence of \<^verbatim>\<open>addTask\<close> calls. A rejected call throws to its caller and leaves the
  queue as it was.
\<close>

definition queue_after ::
  "'m queue_config \<Rightarrow> 'm processing_task list \<Rightarrow> 'm processing_task \<Rightarrow> 'm processing_task list"
where
  "queue_after cfg q t = (case addTask cfg q t of Inl _ \<Rightarrow> q | Inr q' \<Rightarrow> q')"

fun addTasks ::
  "'m queue_config \<Rightarrow> 'm processing_task list \<Rightarrow> 'm processing_task list
     \<Rightarrow> 'm processing_task list"
where
  "addTasks cfg q [] = q"
| "addTasks cfg q (t # ts) = addTasks cfg (queue_after cfg q t) ts"

text \<open>The tasks queued for one identity, in queue order.\<close>

definition tasks_for :: "string \<Rightarrow> 'm processing_task list \<Rightarrow> 'm processing_task list" where
  "tasks_for i q = filter (\<lambda>e. task_id e = i) q"

text \<open>The task of the queue tests: \<^verbatim>\<open>createTask(id, type)\<close>, with the payload left out.\<close>

definition createTask :: "string \<Rightarrow> task_type \<Rightarrow> unit processing_task" where
  "createTask i ty =
     \<lparr>task_id = i, task_type = ty, priority = 1, maxRetries = 3, retryCount = 0,
      createdAt = 0, updatedAt = 0, task_status = PENDING, task_metadata = ()\<rparr>"

definition test_config :: "nat \<Rightarrow> unit queue_config" where
  "test_config n = \<lparr>maxQueueSize = n, resolveDeleteOnDelete = (\<lambda>existing incoming. incoming)\<rparr>"


text \<open>A DELETE for identity \<open>i\<close> is in the queue.\<close>

definition delete_queued :: "string \<Rightarrow> 'm processing_task list \<Rightarrow> bool" where
  "delete_queued i q = (\<exists>d\<in>set q. task_id d = i \<and> task_type d = DELETE)"

section \<open>Adaptive batch scheduler: data\<close>

text \<open>
  \<^verbatim>\<open>services/InitialSyncManager.ts\<close>. JavaScript numbers that count files, batches and
  milliseconds are integers here; \<^verbatim>\<open>Math.round\<close> of an integer is the integer. Thrown
  values are either \<^verbatim>\<open>Error\<close> objects or anything else (\<^verbatim>\<open>error instanceof Error\<close>
  tells them apart).
\<close>

datatype thrown = ErrorObject string | OtherValue string

record tfile =
  file_path :: string
  file_name :: string
  file_mtime :: int

text \<open>
  \<^verbatim>\<open>DocumentMetadata\<close> as \<^verbatim>\<open>MetadataExtractor.extractMetadata\<close> builds it; the
  scheduler reads and writes \<^verbatim>\<open>customMetadata\<close> only, the front matter, tags and links
  that the extractor adds are left out.
\<close>

record document_metadata =
  obsidianId :: string
  md_path :: string
  lastModified :: int
  created :: int
  md_size :: int
  customMetadata :: "(string \<times> string) list"

record pending_entry =
  pe_metadata :: document_metadata
  pe_hash :: string
  pe_lastModified :: int

record throttling_controls =
  minBatchSize :: int
  maxBatchSize :: int
  targetBatchDurationMs :: int
  throttleDelayMs :: int
  progressIntervalMs :: int

record priority_rule =
  rule_pattern :: string
  rule_priority :: int

record exclusion_rules =
  excludedFolders :: "string list"
  excludedFileTypes :: "string list"
  excludedFilePrefixes :: "string list"
  excludedFiles :: "string list"

record initial_sync_options =
  batchSize :: int
  maxConcurrentBatches :: int
  enableAutoInitialSync :: bool
  priorityRules :: "priority_rule list"
  syncFilePath :: "string option"
  exclusions :: "exclusion_rules option"
  throttling :: throttling_controls

datatype batch_status = BatchPending | BatchProcessing | BatchCompleted | BatchFailed

text \<open>
  A batch: \<^verbatim>\<open>id\<close> is \<^verbatim>\<open>batch-<n>\<close>, kept as the number \<open>n\<close>. \<^verbatim>\<open>progress\<close> is a
  percentage; \<open>None\<close> stands for the non-finite quotient of a division by zero.
\<close>

record sync_batch =
  batch_id :: nat
  batch_files :: "tfile list"
  batch_status :: batch_status
  batch_progress :: "rat option"
  batch_startTime :: "int option"
  batch_endTime :: "int option"

text \<open>
  Every call that leaves the scheduler, in the order made: the record of its effects.
  \<^verbatim>\<open>UpdateSyncStatus path status lastModified hash\<close> is
  \<^verbatim>\<open>syncManager.updateSyncStatus(path, status, {lastModified, hash})\<close>;
  \<^verbatim>\<open>HandleError e ctx path\<close> is
  \<^verbatim>\<open>errorHandler.handleError(e, {context: ctx, metadata: {filePath: path}})\<close>.
  Console output is not recorded.
\<close>

datatype call =
    GetFileCount
  | GetMarkdownFiles
  | ExtractMetadata tfile
  | VaultRead tfile
  | UpdateFileVectorizationStatus document_metadata string
  | UpdateSyncStatus string string int string
  | AddTask "document_metadata processing_task"
  | HandleError thrown string string
  | NoticeShown string
  | ProgressFlushScheduled
  | Delay int

text \<open>
  The collaborators. Each answers from the calls made so far, so a collaborator may
  answer the same request differently at different times. A call that rejects or throws
  answers with the thrown value. \<^verbatim>\<open>Date.now()\<close> is the next reading of \<open>clock\<close>.
  \<^verbatim>\<open>errorHandler.handleError\<close> returns normally (section 6 of the specification: the
  error collaborator is non-throwing), and so does \<^verbatim>\<open>new Notice\<close>.
\<close>

record supabase_service =
  getFileCount :: "call list \<Rightarrow> thrown + nat"
  updateFileVectorizationStatus :: "call list \<Rightarrow> document_metadata \<Rightarrow> string \<Rightarrow> thrown option"

record collaborators =
  supabaseService :: "supabase_service option"
  embeddingService :: "(call list \<Rightarrow> bool) option"
  updateSyncStatus :: "call list \<Rightarrow> string \<Rightarrow> string \<Rightarrow> int \<Rightarrow> string \<Rightarrow> thrown option"
  extractMetadata :: "call list \<Rightarrow> tfile \<Rightarrow> thrown + document_metadata"
  vaultRead :: "call list \<Rightarrow> tfile \<Rightarrow> thrown + string"
  digestHex :: "string \<Rightarrow> thrown + string"
  queueAddTask :: "call list \<Rightarrow> document_metadata processing_task \<Rightarrow> thrown option"
  getMarkdownFiles :: "tfile list"
  toLowerCase :: "string \<Rightarrow> string"
  clock :: "nat \<Rightarrow> int"

text \<open>The mutable fields of \<^verbatim>\<open>InitialSyncManager\<close>, the call record and the clock position.\<close>

record sync_state =
  batches :: "sync_batch list"
  totalFiles :: int
  processedFiles :: int
  currentBatch :: int
  totalBatches :: int
  startTime :: int
  isRunning :: bool
  embeddingWarningShown :: bool
  adaptiveBatchSize :: int
  completedBatchCount :: int
  rafScheduled :: bool
  pendingFileMetadata :: "string \<rightharpoonup> pending_entry"
  calls :: "call list"
  clockReads :: nat

definition record_call :: "call \<Rightarrow> sync_state \<Rightarrow> sync_state" where
  "record_call c st = st\<lparr>calls := calls st @ [c]\<rparr>"

definition handleError :: "thrown \<Rightarrow> string \<Rightarrow> string \<Rightarrow> sync_state \<Rightarrow> sync_state" where
  "handleError e ctx p st = record_call (HandleError e ctx p) st"

definition dateNow :: "collaborators \<Rightarrow> sync_state \<Rightarrow> int \<times> sync_state" where
  "dateNow env st = (clock env (clockReads st), st\<lparr>clockReads := Suc (clockReads st)\<rparr>)"

section \<open>Adaptive batch scheduler: queue events\<close>

text \<open>
  \<^verbatim>\<open>syncManager.updateSyncStatus\<close> inside \<^verbatim>\<open>try\<close>/\<^verbatim>\<open>catch\<close>: a rejection is handed
  to the error handler under the handler's context.
\<close>

definition writeFinalStatus ::
  "collaborators \<Rightarrow> string \<Rightarrow> string \<Rightarrow> string \<Rightarrow> pending_entry \<Rightarrow> sync_state \<Rightarrow> sync_state"
where
  "writeFinalStatus env ctx i status pending st =
     (let st1 = record_call (UpdateSyncStatus i status (pe_lastModified pending) (pe_hash pending)) st
      in case updateSyncStatus env (calls st) i status (pe_lastModified pending) (pe_hash pending) of
           None \<Rightarrow> st1
         | Some e \<Rightarrow> handleError e ctx i st1)"

definition handleTaskCompleted ::
  "collaborators \<Rightarrow> document_metadata processing_task \<Rightarrow> sync_state \<Rightarrow> sync_state"
where
  "handleTaskCompleted env task st =
     (case pendingFileMetadata st (task_id task) of
        None \<Rightarrow> st
      | Some pending \<Rightarrow>
          (let st1 = st\<lparr>pendingFileMetadata := (pendingFileMetadata st)(task_id task := None)\<rparr>
           in if supabaseService env = None
              then writeFinalStatus env ''InitialSyncManager.handleTaskCompleted''
                     (task_id task) ''OK'' pending st1
              else st1))"

definition handleTaskFailed ::
  "collaborators \<Rightarrow> document_metadata processing_task \<Rightarrow> thrown \<Rightarrow> sync_state \<Rightarrow> sync_state"
where
  "handleTaskFailed env task err st =
     (let st2 =
            (case pendingFileMetadata st (task_id task) of
               None \<Rightarrow> st
             | Some pending \<Rightarrow>
                 (let st1 = st\<lparr>pendingFileMetadata := (pendingFileMetadata st)(task_id task := None)\<rparr>
                  in if supabaseService env = None
                     then writeFinalStatus env ''InitialSyncManager.handleTaskFailed''
                            (task_id task) ''FAILED'' pending st1
                     else st1))
      in case err of
           ErrorObject m \<Rightarrow> handleError err ''InitialSyncManager.queueTaskFailed'' (task_id task) st2
         | OtherValue v \<Rightarrow> st2)"

text \<open>The calls of a record that write the sync file.\<close>

fun is_sync_write :: "call \<Rightarrow> bool" where
  "is_sync_write (UpdateSyncStatus i status m h) = True"
| "is_sync_write c = False"

definition sync_writes :: "call list \<Rightarrow> call list" where
  "sync_writes cs = filter is_sync_write cs"

section \<open>Adaptive batch scheduler: the control rule\<close>

text \<open>
  \<^verbatim>\<open>Math.round(p * 1.25)\<close> and \<^verbatim>\<open>Math.round(p * 0.8)\<close> on an integer \<open>p\<close>:
  \<^verbatim>\<open>Math.round\<close> rounds a half towards \<open>+\<infinity>\<close>, and \<open>4p/5\<close> is never a half.
\<close>

definition round_times_1_25 :: "int \<Rightarrow> int" where
  "round_times_1_25 p = (5 * p + 2) div 4"

definition round_times_0_8 :: "int \<Rightarrow> int" where
  "round_times_0_8 p = (8 * p + 5) div 10"

text \<open>
  The thresholds \<^verbatim>\<open>target * 0.6\<close> and \<^verbatim>\<open>target * 1.4\<close> are products of IEEE 754
  double-precision numbers. The literal \<^verbatim>\<open>0.6\<close> is the double
  \<open>5404319552844595 / 2 ^ 53\<close> and \<^verbatim>\<open>1.4\<close> is \<open>6305039478318694 / 2 ^ 52\<close>. The product
  of an integer \<open>x\<close> (below \<open>2 ^ 53\<close> in absolute value, so itself a double) with the
  double \<open>m / 2 ^ e\<close> is the exact product \<open>x * m / 2 ^ e\<close> rounded to 53 significant bits,
  a tie going to the even mantissa. The result is kept as a rational number, with
  which the integer duration is compared exactly.
\<close>

fun bit_length :: "nat \<Rightarrow> nat" where
  "bit_length n = (if n = 0 then 0 else Suc (bit_length (n div 2)))"

declare bit_length.simps [simp del]

definition round_half_even :: "nat \<Rightarrow> nat \<Rightarrow> nat" where
  "round_half_even n shift =
     (let q = n div 2 ^ shift; r = n mod 2 ^ shift in
      if 2 * r > 2 ^ shift \<or> (2 * r = 2 ^ shift \<and> odd q) then q + 1 else q)"

definition double_times :: "int \<Rightarrow> nat \<Rightarrow> nat \<Rightarrow> rat" where
  "double_times x m e =
     (let n = nat \<bar>x\<bar> * m; shift = bit_length n - 53 in
      of_int (sgn x) * of_nat (round_half_even n shift) * 2 ^ shift / 2 ^ e)"

definition times_0_6 :: "int \<Rightarrow> rat" where
  "times_0_6 x = double_times x 5404319552844595 53"

definition times_1_4 :: "int \<Rightarrow> rat" where
  "times_1_4 x = double_times x 6305039478318694 52"

definition adjustBatchSize :: "initial_sync_options \<Rightarrow> int \<Rightarrow> int \<Rightarrow> sync_state \<Rightarrow> sync_state" where
  "adjustBatchSize opts duration processedCount st =
     (if processedCount = 0 \<or> duration \<le> 0 then st
      else
        let thr = throttling opts; target = targetBatchDurationMs thr;
            lowerBound = times_0_6 target; upperBound = times_1_4 target in
        if of_int duration < lowerBound \<and> adaptiveBatchSize st < maxBatchSize thr
        then st\<lparr>adaptiveBatchSize :=
                  min (maxBatchSize thr) (max 1 (round_times_1_25 (adaptiveBatchSize st)))\<rparr>
        else if of_int duration > upperBound \<and> adaptiveBatchSize st > minBatchSize thr
        then st\<lparr>adaptiveBatchSize :=
                  max (minBatchSize thr) (max 1 (round_times_0_8 (adaptiveBatchSize st)))\<rparr>
        else st)"

text \<open>
  The rule as section 8 of the specification words it (\<open>d\<close> the duration, \<open>p\<close> the
  previous size), with 0.6 and 1.4 of the target taken exactly, on integers scaled by
  ten, for comparison with \<open>adjustBatchSize\<close>.
\<close>

definition spec_next_batch_size :: "throttling_controls \<Rightarrow> int \<Rightarrow> int \<Rightarrow> int" where
  "spec_next_batch_size thr d p =
     (if 10 * d < 6 * targetBatchDurationMs thr then min (maxBatchSize thr) (round_times_1_25 p)
      else if 10 * d > 14 * targetBatchDurationMs thr then max (minBatchSize thr) (round_times_0_8 p)
      else p)"

text \<open>The defaults of the constructor.\<close>

definition defaultThrottling :: throttling_controls where
  "defaultThrottling =
     \<lparr>minBatchSize = 10, maxBatchSize = 200, targetBatchDurationMs = 2000,
      throttleDelayMs = 0, progressIntervalMs = 16\<rparr>"

definition defaultOptions :: initial_sync_options where
  "defaultOptions =
     \<lparr>batchSize = 50, maxConcurrentBatches = 3, enableAutoInitialSync = True,
      priorityRules = [], syncFilePath = Some ''_obsidianragsync.md'',
      exclusions = Some \<lparr>excludedFolders = [], excludedFileTypes = [],
                         excludedFilePrefixes = [], excludedFiles = []\<rparr>,
      throttling = defaultThrottling\<rparr>"

definition initialState :: "initial_sync_options \<Rightarrow> sync_state" where
  "initialState opts =
     \<lparr>batches = [], totalFiles = 0, processedFiles = 0, currentBatch = 0, totalBatches = 0,
      startTime = 0, isRunning = False, embeddingWarningShown = False,
      adaptiveBatchSize = batchSize opts, completedBatchCount = 0, rafScheduled = False,
      pendingFileMetadata = Map.empty, calls = [], clockReads = 0\<rparr>"


section \<open>Adaptive batch scheduler: one file\<close>

definition effectiveSyncFilePath :: "initial_sync_options \<Rightarrow> string" where
  "effectiveSyncFilePath opts =
     (case syncFilePath opts of
        None \<Rightarrow> ''_obsidianragsync.md''
      | Some p \<Rightarrow> if p = [] then ''_obsidianragsync.md'' else p)"

definition isSyncFile :: "initial_sync_options \<Rightarrow> string \<Rightarrow> bool" where
  "isSyncFile opts p =
     (p = effectiveSyncFilePath opts \<or> p = ''_obsidianragsync.md''
      \<or> p = ''_obsidianragsync.md.backup'')"

text \<open>\<^verbatim>\<open>getFilePriority\<close>: the priority of the first rule whose pattern the path contains.\<close>

fun getFilePriority_rules :: "priority_rule list \<Rightarrow> string \<Rightarrow> int" where
  "getFilePriority_rules [] p = 1"
| "getFilePriority_rules (r # rs) p =
     (if sublist (rule_pattern r) p then rule_priority r else getFilePriority_rules rs p)"

definition getFilePriority :: "initial_sync_options \<Rightarrow> string \<Rightarrow> int" where
  "getFilePriority opts p = getFilePriority_rules (priorityRules opts) p"

text \<open>
  \<^verbatim>\<open>calculateFileHash\<close>: a failed read or digest is handed to the error handler and the
  hash is the empty string.
\<close>

definition calculateFileHash :: "collaborators \<Rightarrow> tfile \<Rightarrow> sync_state \<Rightarrow> string \<times> sync_state" where
  "calculateFileHash env file st =
     (let st1 = record_call (VaultRead file) st in
      case vaultRead env (calls st) file of
        Inl e \<Rightarrow> ([], handleError e ''InitialSyncManager.calculateFileHash'' (file_path file) st1)
      | Inr content \<Rightarrow>
          (case digestHex env content of
             Inl e \<Rightarrow> ([], handleError e ''InitialSyncManager.calculateFileHash'' (file_path file) st1)
           | Inr h \<Rightarrow> (h, st1)))"

text \<open>The pending status goes to the remote store when one is configured, else to the sync file.\<close>

definition markPending ::
  "collaborators \<Rightarrow> tfile \<Rightarrow> document_metadata \<Rightarrow> string \<Rightarrow> sync_state
     \<Rightarrow> thrown option \<times> sync_state"
where
  "markPending env file md fileHash st =
     (case supabaseService env of
        Some sb \<Rightarrow>
          (updateFileVectorizationStatus sb (calls st) md ''pending'',
           record_call (UpdateFileVectorizationStatus md ''pending'') st)
      | None \<Rightarrow>
          (updateSyncStatus env (calls st) (file_path file) ''PENDING'' (file_mtime file) fileHash,
           record_call (UpdateSyncStatus (file_path file) ''PENDING'' (file_mtime file) fileHash) st))"

definition embeddingWarning :: "collaborators \<Rightarrow> sync_state \<Rightarrow> sync_state" where
  "embeddingWarning env st =
     (if \<not> embeddingWarningShown st
         \<and> \<not> (case embeddingService env of None \<Rightarrow> False | Some isInitialized \<Rightarrow> isInitialized (calls st))
      then record_call
             (NoticeShown ''No embedding provider configured. Initial sync will queue tasks, but embedding generation may fail until configured.'')
             (st\<lparr>embeddingWarningShown := True\<rparr>)
      else st)"

definition enqueueCreate ::
  "collaborators \<Rightarrow> initial_sync_options \<Rightarrow> tfile \<Rightarrow> document_metadata \<Rightarrow> sync_state
     \<Rightarrow> sync_state \<times> (thrown + unit)"
where
  "enqueueCreate env opts file md st =
     (let (created_at, st1) = dateNow env st;
          (updated_at, st2) = dateNow env st1;
          task = \<lparr>task_id = file_path file, task_type = CREATE,
                  priority = getFilePriority opts (file_path file), maxRetries = 3, retryCount = 0,
                  createdAt = created_at, updatedAt = updated_at,
                  task_status = QUEUED_DURING_INIT, task_metadata = md\<rparr>;
          st3 = record_call (AddTask task) st2
      in case queueAddTask env (calls st2) task of
           Some e \<Rightarrow> (st3, Inl e)
         | None \<Rightarrow> (st3, Inr ()))"

text \<open>The body of the \<^verbatim>\<open>try\<close> block of \<^verbatim>\<open>processFile\<close>; \<open>Inl\<close> is a throw out of it.\<close>

definition processFile_try ::
  "collaborators \<Rightarrow> initial_sync_options \<Rightarrow> tfile \<Rightarrow> sync_state \<Rightarrow> sync_state \<times> (thrown + unit)"
where
  "processFile_try env opts file st =
     (if isSyncFile opts (file_path file) then (st, Inr ())
      else
        case extractMetadata env (calls st) file of
          Inl e \<Rightarrow> (record_call (ExtractMetadata file) st, Inl e)
        | Inr md0 \<Rightarrow>
            (let (fileHash, st2) = calculateFileHash env file (record_call (ExtractMetadata file) st);
                 md = md0\<lparr>customMetadata :=
                            AList.update ''contentHash'' fileHash (customMetadata md0)\<rparr>;
                 st3 = st2\<lparr>pendingFileMetadata := (pendingFileMetadata st2)
                              (file_path file \<mapsto>
                                 \<lparr>pe_metadata = md, pe_hash = fileHash,
                                  pe_lastModified = file_mtime file\<rparr>)\<rparr>;
                 (rejected, st4) = markPending env file md fileHash st3
             in case rejected of
                  Some e \<Rightarrow> (st4, Inl e)
                | None \<Rightarrow> enqueueCreate env opts file md (embeddingWarning env st4)))"

text \<open>
  \<^verbatim>\<open>processFile\<close>: the \<^verbatim>\<open>catch\<close> block deletes the pending entry of the file, reports
  the error and throws it again.
\<close>

definition processFile ::
  "collaborators \<Rightarrow> initial_sync_options \<Rightarrow> tfile \<Rightarrow> sync_state \<Rightarrow> sync_state \<times> (thrown + unit)"
where
  "processFile env opts file st =
     (case processFile_try env opts file st of
        (st1, Inr u) \<Rightarrow> (st1, Inr u)
      | (st1, Inl e) \<Rightarrow>
          (handleError e ''InitialSyncManager.processFile'' (file_path file)
             (st1\<lparr>pendingFileMetadata := (pendingFileMetadata st1)(file_path file := None)\<rparr>),
           Inl e))"

section \<open>Adaptive batch scheduler: one batch\<close>

text \<open>
  \<^verbatim>\<open>updateProgressNotification\<close> schedules one flush (an animation frame or a timer);
  the flush itself runs later, outside the batch loop, and is not part of this model.
\<close>

definition updateProgressNotification :: "sync_state \<Rightarrow> sync_state" where
  "updateProgressNotification st =
     (if totalFiles st = 0 then st
      else if rafScheduled st then st
      else record_call ProgressFlushScheduled (st\<lparr>rafScheduled := True\<rparr>))"

definition progressPercent :: "sync_state \<Rightarrow> rat option" where
  "progressPercent st =
     (if totalFiles st = 0 then None
      else Some (of_int (processedFiles st) / of_int (totalFiles st) * 100))"

text \<open>
  One turn of the loop over \<^verbatim>\<open>batch.files\<close>: the inner \<^verbatim>\<open>try\<close>/\<^verbatim>\<open>catch\<close>. \<open>Inl\<close>
  would be a throw out of the loop.
\<close>

definition processBatchFile ::
  "collaborators \<Rightarrow> initial_sync_options \<Rightarrow> tfile \<Rightarrow> sync_state \<times> sync_batch
     \<Rightarrow> (sync_state \<times> sync_batch) \<times> (thrown + unit)"
where
  "processBatchFile env opts file sb =
     (case processFile env opts file (fst sb) of
        (st1, Inr u) \<Rightarrow>
          (let st2 = st1\<lparr>processedFiles := processedFiles st1 + 1\<rparr>;
               b2 = (snd sb)\<lparr>batch_progress := progressPercent st2\<rparr>
           in ((updateProgressNotification st2, b2), Inr ()))
      | (st1, Inl e) \<Rightarrow>
          ((handleError e ''InitialSyncManager.processFile'' (file_path file) st1, snd sb), Inr ()))"

fun processBatchFiles ::
  "collaborators \<Rightarrow> initial_sync_options \<Rightarrow> tfile list \<Rightarrow> sync_state \<times> sync_batch
     \<Rightarrow> (sync_state \<times> sync_batch) \<times> (thrown + unit)"
where
  "processBatchFiles env opts [] sb = (sb, Inr ())"
| "processBatchFiles env opts (file # files) sb =
     (case processBatchFile env opts file sb of
        (sb1, Inl e) \<Rightarrow> (sb1, Inl e)
      | (sb1, Inr u) \<Rightarrow> processBatchFiles env opts files sb1)"

text \<open>
  \<^verbatim>\<open>processBatch\<close>: the batch object is returned with the state; \<open>Inr\<close> carries the
  duration returned, \<open>Inl\<close> the error thrown again by the outer \<^verbatim>\<open>catch\<close>.
\<close>

definition processBatch ::
  "collaborators \<Rightarrow> initial_sync_options \<Rightarrow> sync_batch \<Rightarrow> sync_state
     \<Rightarrow> (sync_state \<times> sync_batch) \<times> (thrown + int)"
where
  "processBatch env opts batch st =
     (let (started, st1) = dateNow env st;
          b1 = batch\<lparr>batch_status := BatchProcessing, batch_startTime := Some started\<rparr>
      in case processBatchFiles env opts (batch_files b1) (st1, b1) of
           ((st2, b2), Inl e) \<Rightarrow> ((st2, b2\<lparr>batch_status := BatchFailed\<rparr>), Inl e)
         | ((st2, b2), Inr u) \<Rightarrow>
             (let (ended, st3) = dateNow env st2;
                  b3 = b2\<lparr>batch_status := BatchCompleted, batch_endTime := Some ended\<rparr>
              in ((st3, b3), Inr (ended - started))))"

text \<open>The calls of a record that report an error of \<^verbatim>\<open>processFile\<close>.\<close>

fun is_processFile_report :: "call \<Rightarrow> bool" where
  "is_processFile_report (HandleError e ctx p) = (ctx = ''InitialSyncManager.processFile'')"
| "is_processFile_report c = False"

definition processFile_reports :: "sync_state \<Rightarrow> nat" where
  "processFile_reports st = length (filter is_processFile_report (calls st))"


section \<open>Adaptive batch scheduler: partitioning and the worker pool\<close>

text \<open>
  \<^verbatim>\<open>getNextBatch\<close>, the closure of \<^verbatim>\<open>processFilesAdaptive\<close>. Its variables
  \<^verbatim>\<open>nextIndex\<close> and \<^verbatim>\<open>batchCounter\<close> are the cursor; \<open>None\<close> is \<^verbatim>\<open>null\<close>. The
  batch claimed is also pushed on \<^verbatim>\<open>this.batches\<close>.
\<close>

definition normalizedBatchSize :: "initial_sync_options \<Rightarrow> sync_state \<Rightarrow> int" where
  "normalizedBatchSize opts st =
     min (maxBatchSize (throttling opts))
         (max (minBatchSize (throttling opts)) (adaptiveBatchSize st))"

definition getNextBatch ::
  "initial_sync_options \<Rightarrow> tfile list \<Rightarrow> nat \<times> nat \<Rightarrow> sync_state
     \<Rightarrow> (sync_batch \<times> (nat \<times> nat) \<times> sync_state) option"
where
  "getNextBatch opts files cursor st =
     (if length files \<le> fst cursor then None
      else
        let remaining = int (length files) - int (fst cursor);
            size = nat (max 1 (min (normalizedBatchSize opts st) remaining));
            batch = \<lparr>batch_id = snd cursor,
                     batch_files = take size (drop (fst cursor) files),
                     batch_status = BatchPending, batch_progress = Some 0,
                     batch_startTime = None, batch_endTime = None\<rparr>
        in Some (batch, (fst cursor + size, Suc (snd cursor)),
                 st\<lparr>batches := batches st @ [batch]\<rparr>))"

text \<open>\<^verbatim>\<open>Math.ceil(a / b)\<close> for a positive divisor.\<close>

definition ceil_div :: "int \<Rightarrow> int \<Rightarrow> int" where
  "ceil_div a b = - ((- a) div b)"

text \<open>What a worker does between the end of a batch and its next claim.\<close>

definition afterBatch :: "initial_sync_options \<Rightarrow> int \<Rightarrow> int \<Rightarrow> sync_state \<Rightarrow> sync_state" where
  "afterBatch opts duration processedCount st =
     (let st1 = adjustBatchSize opts duration processedCount st;
          st2 = st1\<lparr>completedBatchCount := completedBatchCount st1 + 1\<rparr>;
          st3 = st2\<lparr>currentBatch := completedBatchCount st2\<rparr>;
          remainingFiles = totalFiles st3 - processedFiles st3;
          estimatedRemainingBatches = ceil_div remainingFiles (max 1 (adaptiveBatchSize st3));
          st4 = st3\<lparr>totalBatches := completedBatchCount st3 + max 0 estimatedRemainingBatches\<rparr>
      in if throttleDelayMs (throttling opts) > 0
         then record_call (Delay (throttleDelayMs (throttling opts))) st4
         else st4)"

text \<open>
  A worker is the batch it holds and the place of that batch in \<^verbatim>\<open>this.batches\<close> (the
  same object in the source). One turn of its \<^verbatim>\<open>while\<close> loop processes the batch and
  claims the next one; the worker ends when there is none, or when \<^verbatim>\<open>processBatch\<close>
  throws.
\<close>

definition workerTurn ::
  "collaborators \<Rightarrow> initial_sync_options \<Rightarrow> tfile list \<Rightarrow> nat \<times> nat \<Rightarrow> nat \<times> sync_batch
     \<Rightarrow> sync_state \<Rightarrow> (nat \<times> nat) \<times> (nat \<times> sync_batch) option \<times> sync_state"
where
  "workerTurn env opts files cursor worker st =
     (case processBatch env opts (snd worker) st of
        ((st1, b1), Inl e) \<Rightarrow>
          (cursor, None, st1\<lparr>batches := (batches st1)[fst worker := b1]\<rparr>)
      | ((st1, b1), Inr duration) \<Rightarrow>
          (let st2 = st1\<lparr>batches := (batches st1)[fst worker := b1]\<rparr>;
               st3 = afterBatch opts duration (int (length (batch_files b1))) st2
           in case getNextBatch opts files cursor st3 of
                None \<Rightarrow> (cursor, None, st3)
              | Some (batch, cursor', st4) \<Rightarrow>
                  (cursor', Some (length (batches st3), batch), st4)))"

definition remove_nth :: "nat \<Rightarrow> 'a list \<Rightarrow> 'a list" where
  "remove_nth n xs = take n xs @ drop (Suc n) xs"

lemma workerTurn_cursor:
  "workerTurn env opts files cursor worker st = (cursor', next_batch, st') \<Longrightarrow>
     (next_batch = None \<longrightarrow> cursor' = cursor) \<and>
     (next_batch \<noteq> None \<longrightarrow> fst cursor < fst cursor' \<and> fst cursor < length files)"
  by (auto simp: workerTurn_def getNextBatch_def Let_def
      split: prod.splits sum.splits option.splits if_splits)

text \<open>
  The pool of workers that \<^verbatim>\<open>processFilesAdaptive\<close> starts. The workers of the source
  interleave at their \<^verbatim>\<open>await\<close>s; here a scheduler \<open>sched\<close> picks, turn by turn, the
  worker that runs one whole turn.
\<close>

function processWorkers ::
  "collaborators \<Rightarrow> initial_sync_options \<Rightarrow> (nat \<Rightarrow> nat) \<Rightarrow> tfile list \<Rightarrow> nat \<Rightarrow> nat \<times> nat
     \<Rightarrow> (nat \<times> sync_batch) list \<Rightarrow> sync_state \<Rightarrow> sync_state"
where
  "processWorkers env opts sched files turn cursor workers st =
     (if workers = [] then st
      else
        case workerTurn env opts files cursor (workers ! (sched turn mod length workers)) st of
          (cursor', None, st') \<Rightarrow>
            processWorkers env opts sched files (Suc turn) cursor'
              (remove_nth (sched turn mod length workers) workers) st'
        | (cursor', Some worker', st') \<Rightarrow>
            processWorkers env opts sched files (Suc turn) cursor'
              (workers[sched turn mod length workers := worker']) st')"
  by pat_completeness auto
termination
proof (relation "measure (\<lambda>(env, opts, sched, files, turn, cursor, workers, st).
                    (length files - fst cursor) + length workers)")
  show "wf (measure (\<lambda>(env, opts, sched, files, turn, cursor, workers, st).
                    (length files - fst cursor) + length workers))"
    by simp
next
  fix env opts and sched :: "nat \<Rightarrow> nat" and files and turn :: nat
    and cursor workers st cursor' y next_batch st'
  assume "workers \<noteq> []"
    and "(cursor', y) = workerTurn env opts files cursor
                          (workers ! (sched turn mod length workers)) st"
    and "(next_batch, st') = y" and "next_batch = None"
  then have "workerTurn env opts files cursor (workers ! (sched turn mod length workers)) st
               = (cursor', None, st')"
    by simp
  moreover have "sched turn mod length workers < length workers"
    using \<open>workers \<noteq> []\<close> by simp
  ultimately show "((env, opts, sched, files, Suc turn, cursor',
          remove_nth (sched turn mod length workers) workers, st'),
         (env, opts, sched, files, turn, cursor, workers, st))
        \<in> measure (\<lambda>(env, opts, sched, files, turn, cursor, workers, st).
                    (length files - fst cursor) + length workers)"
    by (auto simp: remove_nth_def dest: workerTurn_cursor)
next
  fix env opts and sched :: "nat \<Rightarrow> nat" and files and turn :: nat
    and cursor workers st cursor' y next_batch st' worker'
  assume "workers \<noteq> []"
    and "(cursor', y) = workerTurn env opts files cursor
                          (workers ! (sched turn mod length workers)) st"
    and "(next_batch, st') = y" and "next_batch = Some worker'"
  then have "workerTurn env opts files cursor (workers ! (sched turn mod length workers)) st
               = (cursor', Some worker', st')"
    by simp
  from workerTurn_cursor [OF this]
  show "((env, opts, sched, files, Suc turn, cursor',
          workers[sched turn mod length workers := worker'], st'),
         (env, opts, sched, files, turn, cursor, workers, st))
        \<in> measure (\<lambda>(env, opts, sched, files, turn, cursor, workers, st).
                    (length files - fst cursor) + length workers)"
    by (auto simp: diff_less_mono2)
qed

text \<open>
  The \<^verbatim>\<open>for\<close> loop of \<^verbatim>\<open>processFilesAdaptive\<close>: \<^verbatim>\<open>workerFactory\<close> claims the first
  batch of each worker before any batch is processed, and stops at the first \<^verbatim>\<open>null\<close>.
\<close>

fun startWorkers ::
  "initial_sync_options \<Rightarrow> tfile list \<Rightarrow> nat \<Rightarrow> nat \<times> nat \<Rightarrow> sync_state
     \<Rightarrow> (nat \<times> nat) \<times> (nat \<times> sync_batch) list \<times> sync_state"
where
  "startWorkers opts files 0 cursor st = (cursor, [], st)"
| "startWorkers opts files (Suc n) cursor st =
     (case getNextBatch opts files cursor st of
        None \<Rightarrow> (cursor, [], st)
      | Some (batch, cursor', st') \<Rightarrow>
          (case startWorkers opts files n cursor' st' of
             (cursor'', workers, st'') \<Rightarrow>
               (cursor'', (length (batches st), batch) # workers, st'')))"

definition processFilesAdaptive ::
  "collaborators \<Rightarrow> initial_sync_options \<Rightarrow> (nat \<Rightarrow> nat) \<Rightarrow> tfile list \<Rightarrow> sync_state \<Rightarrow> sync_state"
where
  "processFilesAdaptive env opts sched files st =
     (if files = [] then st
      else
        case startWorkers opts files (nat (max 1 (maxConcurrentBatches opts))) (0, 0) st of
          (cursor, workers, st1) \<Rightarrow> processWorkers env opts sched files 0 cursor workers st1)"

section \<open>Adaptive batch scheduler: the bulk run\<close>

definition effectiveExclusions :: "initial_sync_options \<Rightarrow> exclusion_rules" where
  "effectiveExclusions opts =
     (case exclusions opts of
        None \<Rightarrow> \<lparr>excludedFolders = [], excludedFileTypes = [],
                 excludedFilePrefixes = [], excludedFiles = []\<rparr>
      | Some e \<Rightarrow> e)"

definition filterExcludedFiles ::
  "collaborators \<Rightarrow> initial_sync_options \<Rightarrow> tfile list \<Rightarrow> tfile list"
where
  "filterExcludedFiles env opts files =
     filter (\<lambda>file.
        \<not> isSyncFile opts (file_path file)
        \<and> file_name file \<notin> set (excludedFiles (effectiveExclusions opts))
        \<and> \<not> list_ex (\<lambda>folder. prefix (if suffix ''/'' folder then folder else folder @ ''/'')
                                  (file_path file))
              (excludedFolders (effectiveExclusions opts))
        \<and> \<not> list_ex (\<lambda>ext. suffix (toLowerCase env ext) (toLowerCase env (file_path file)))
              (excludedFileTypes (effectiveExclusions opts))
        \<and> \<not> list_ex (\<lambda>p. prefix p (file_name file))
              (excludedFilePrefixes (effectiveExclusions opts)))
       files"

text \<open>\<^verbatim>\<open>path.split('.').pop()\<close>: what follows the last dot, the whole path without one.\<close>

definition lastDotSegment :: "string \<Rightarrow> string" where
  "lastDotSegment p = rev (takeWhile (\<lambda>c. c \<noteq> CHR ''.'') (rev p))"

definition isExcluded :: "collaborators \<Rightarrow> initial_sync_options \<Rightarrow> string \<Rightarrow> bool" where
  "isExcluded env opts p =
     (let ex = effectiveExclusions opts;
          fileExtension = toLowerCase env (lastDotSegment p)
      in list_ex (\<lambda>folder. prefix folder p) (excludedFolders ex)
         \<or> (fileExtension \<noteq> [] \<and> fileExtension \<in> set (excludedFileTypes ex))
         \<or> list_ex (\<lambda>x. prefix x p) (excludedFilePrefixes ex)
         \<or> p \<in> set (excludedFiles ex))"

text \<open>\<^verbatim>\<open>Array.prototype.sort\<close> is stable; the comparator orders by descending priority.\<close>

definition sortFilesByPriority :: "initial_sync_options \<Rightarrow> tfile list \<Rightarrow> tfile list" where
  "sortFilesByPriority opts files =
     sort_key (\<lambda>file. - getFilePriority opts (file_path file)) files"

definition startSync_run ::
  "collaborators \<Rightarrow> initial_sync_options \<Rightarrow> (nat \<Rightarrow> nat) \<Rightarrow> sync_state
     \<Rightarrow> sync_state \<times> (thrown + unit)"
where
  "startSync_run env opts sched st =
     (let st1 = record_call GetMarkdownFiles st;
          filteredFiles = filterExcludedFiles env opts (getMarkdownFiles env);
          filesToSync = filter (\<lambda>file. \<not> isExcluded env opts (file_path file)) filteredFiles
      in if filesToSync = [] then (st1, Inr ())
         else
           let prioritizedFiles = sortFilesByPriority opts filesToSync;
               (now, st2) = dateNow env st1;
               st3 = st2\<lparr>totalFiles := int (length prioritizedFiles), processedFiles := 0,
                         startTime := now, currentBatch := 0, completedBatchCount := 0,
                         adaptiveBatchSize := batchSize opts, batches := [],
                         totalBatches :=
                           max 1 (ceil_div (int (length prioritizedFiles)) (max 1 (batchSize opts)))\<rparr>
           in (processFilesAdaptive env opts sched prioritizedFiles st3, Inr ()))"

text \<open>
  \<^verbatim>\<open>startSync\<close>. The body of its \<^verbatim>\<open>try\<close> block first asks the remote store, when one
  is configured, for its record count; \<^verbatim>\<open>finally\<close> clears \<^verbatim>\<open>isRunning\<close>. \<open>Inl\<close> is
  the error thrown again by \<^verbatim>\<open>catch\<close>.
\<close>

definition startSync_try ::
  "collaborators \<Rightarrow> initial_sync_options \<Rightarrow> (nat \<Rightarrow> nat) \<Rightarrow> sync_state
     \<Rightarrow> sync_state \<times> (thrown + unit)"
where
  "startSync_try env opts sched st =
     (case supabaseService env of
        None \<Rightarrow> startSync_run env opts sched st
      | Some sb \<Rightarrow>
          (case getFileCount sb (calls st) of
             Inl e \<Rightarrow> (record_call GetFileCount st, Inl e)
           | Inr existingFiles \<Rightarrow>
               if existingFiles > 0 then (record_call GetFileCount st, Inr ())
               else startSync_run env opts sched (record_call GetFileCount st)))"

definition startSync ::
  "collaborators \<Rightarrow> initial_sync_options \<Rightarrow> (nat \<Rightarrow> nat) \<Rightarrow> sync_state
     \<Rightarrow> sync_state \<times> (thrown + unit)"
where
  "startSync env opts sched st =
     (case startSync_try env opts sched (st\<lparr>isRunning := True\<rparr>) of
        (st1, result) \<Rightarrow> (st1\<lparr>isRunning := False\<rparr>, result))"


section \<open>Offline durable queue: replay\<close>

text \<open>
  Modelled from the spec: \<^verbatim>\<open>services/OfflineQueueManager.ts\<close>
  (\<^verbatim>\<open>OfflineQueueManager.processQueue\<close>) is not among the sources; only its test
  \<^verbatim>\<open>tests/OfflineQueueManager.test.ts\<close> is. Section 3 of the specification gives the
  operation record, section 4.3 the contract of \<^verbatim>\<open>processQueue\<close>: the pending
  operations are replayed in insertion order; connectivity is read once, at invocation;
  a reachable store is written by a status update (create, update) or its deletion path
  (delete); without it a delete is recorded in the sync file with status OK and a create
  or update is left pending; an operation replayed with success leaves the queue; a
  failure is reported, the operation stays pending and the pass goes on.
\<close>

datatype operation_type = OpCreate | OpUpdate | OpDelete

datatype operation_status = OpPending | OpProcessing | OpDone | OpFailed

record operation_metadata =
  om_contentHash :: "string option"
  om_lastModified :: "int option"

record offline_operation =
  op_id :: string
  op_fileId :: string
  operationType :: operation_type
  op_timestamp :: int
  op_metadata :: "operation_metadata option"
  op_status :: operation_status

datatype offline_call =
    RemoteSetStatus string string "operation_metadata option"
  | RemoteDelete string
  | SyncFileUpdate string string "operation_metadata option"
  | ReportError thrown string

record offline_collaborators =
  remoteSetStatus :: "offline_call list \<Rightarrow> string \<Rightarrow> string \<Rightarrow> operation_metadata option \<Rightarrow> thrown option"
  remoteDelete :: "offline_call list \<Rightarrow> string \<Rightarrow> thrown option"
  syncFileUpdate :: "offline_call list \<Rightarrow> string \<Rightarrow> string \<Rightarrow> operation_metadata option \<Rightarrow> thrown option"

record offline_state =
  oq_queue :: "offline_operation list"
  oq_calls :: "offline_call list"

datatype replay_outcome = Replayed | LeftPending | ReplayFailure thrown

text \<open>The one call an operation is replayed by, if any, and what came of it.\<close>

definition replayOperation ::
  "offline_collaborators \<Rightarrow> bool \<Rightarrow> offline_operation \<Rightarrow> offline_call list
     \<Rightarrow> replay_outcome \<times> offline_call list"
where
  "replayOperation env reachable op cs =
     (if reachable then
        (if operationType op = OpDelete
         then (case remoteDelete env cs (op_fileId op) of
                 None \<Rightarrow> Replayed | Some e \<Rightarrow> ReplayFailure e,
               cs @ [RemoteDelete (op_fileId op)])
         else (case remoteSetStatus env cs (op_fileId op) ''pending'' (op_metadata op) of
                 None \<Rightarrow> Replayed | Some e \<Rightarrow> ReplayFailure e,
               cs @ [RemoteSetStatus (op_fileId op) ''pending'' (op_metadata op)]))
      else
        (if operationType op = OpDelete
         then (case syncFileUpdate env cs (op_fileId op) ''OK'' (op_metadata op) of
                 None \<Rightarrow> Replayed | Some e \<Rightarrow> ReplayFailure e,
               cs @ [SyncFileUpdate (op_fileId op) ''OK'' (op_metadata op)])
         else (LeftPending, cs)))"

definition processOperation ::
  "offline_collaborators \<Rightarrow> bool \<Rightarrow> offline_operation \<Rightarrow> offline_state \<Rightarrow> offline_state"
where
  "processOperation env reachable op st =
     (case replayOperation env reachable op (oq_calls st) of
        (Replayed, cs) \<Rightarrow>
          st\<lparr>oq_queue := filter (\<lambda>queued. op_id queued \<noteq> op_id op) (oq_queue st), oq_calls := cs\<rparr>
      | (LeftPending, cs) \<Rightarrow> st\<lparr>oq_calls := cs\<rparr>
      | (ReplayFailure e, cs) \<Rightarrow> st\<lparr>oq_calls := cs @ [ReportError e (op_id op)]\<rparr>)"

fun processOperations ::
  "offline_collaborators \<Rightarrow> bool \<Rightarrow> offline_operation list \<Rightarrow> offline_state \<Rightarrow> offline_state"
where
  "processOperations env reachable [] st = st"
| "processOperations env reachable (op # ops) st =
     processOperations env reachable ops (processOperation env reachable op st)"

definition processQueue :: "offline_collaborators \<Rightarrow> bool \<Rightarrow> offline_state \<Rightarrow> offline_state" where
  "processQueue env reachable st =
     processOperations env reachable
       (filter (\<lambda>queued. op_status queued = OpPending) (oq_queue st)) st"

fun is_remote_call :: "offline_call \<Rightarrow> bool" where
  "is_remote_call (RemoteSetStatus i s m) = True"
| "is_remote_call (RemoteDelete i) = True"
| "is_remote_call c = False"

text \<open>The operation and the collaborators of the second test of the offline queue.\<close>

definition deleteOperation :: "string \<Rightarrow> string \<Rightarrow> offline_operation" where
  "deleteOperation i f =
     \<lparr>op_id = i, op_fileId = f, operationType = OpDelete, op_timestamp = 0,
      op_metadata = None, op_status = OpPending\<rparr>"

definition resolvingCollaborators :: offline_collaborators where
  "resolvingCollaborators =
     \<lparr>remoteSetStatus = (\<lambda>cs i s m. None), remoteDelete = (\<lambda>cs i. None),
      syncFileUpdate = (\<lambda>cs i s m. None)\<rparr>"

definition rejectingSyncFile :: offline_collaborators where
  "rejectingSyncFile =
     \<lparr>remoteSetStatus = (\<lambda>cs i s m. None), remoteDelete = (\<lambda>cs i. None),
      syncFileUpdate = (\<lambda>cs i s m. Some (ErrorObject ''sync file is locked''))\<rparr>"

section \<open>Fixtures\<close>

text \<open>The fixtures of \<^verbatim>\<open>InitialSyncManager\<close>'s tests, and collaborators that resolve.\<close>

definition testMetadata :: "string \<Rightarrow> document_metadata" where
  "testMetadata p =
     \<lparr>obsidianId = p, md_path = p, lastModified = 1, created = 1, md_size = 10,
      customMetadata = []\<rparr>"

definition testPending :: pending_entry where
  "testPending = \<lparr>pe_metadata = testMetadata ''Note.md'', pe_hash = ''abc'', pe_lastModified = 123\<rparr>"

definition testTask :: "document_metadata processing_task" where
  "testTask =
     \<lparr>task_id = ''Note.md'', task_type = CREATE, priority = 1, maxRetries = 3, retryCount = 0,
      createdAt = 0, updatedAt = 0, task_status = PENDING,
      task_metadata = testMetadata ''Note.md''\<rparr>"

definition testFile :: "string \<Rightarrow> tfile" where
  "testFile p = \<lparr>file_path = p, file_name = p, file_mtime = 123\<rparr>"

definition offlineCollaborators :: collaborators where
  "offlineCollaborators =
     \<lparr>supabaseService = None, embeddingService = None,
      updateSyncStatus = (\<lambda>cs p status m h. None),
      extractMetadata = (\<lambda>cs file. Inr (testMetadata (file_path file))),
      vaultRead = (\<lambda>cs file. Inr ''text''),
      digestHex = (\<lambda>content. Inr ''abc''),
      queueAddTask = (\<lambda>cs task. None),
      getMarkdownFiles = [testFile ''A.md'', testFile ''B.md'', testFile ''C.md''],
      toLowerCase = (\<lambda>s. s),
      clock = (\<lambda>n. 1000 * int n)\<rparr>"

definition onlineCollaborators :: "nat \<Rightarrow> collaborators" where
  "onlineCollaborators n =
     offlineCollaborators
       \<lparr>supabaseService :=
          Some \<lparr>getFileCount = (\<lambda>cs. Inr n),
                updateFileVectorizationStatus = (\<lambda>cs md status. None)\<rparr>\<rparr>"

definition rejectingQueue :: "string \<Rightarrow> collaborators" where
  "rejectingQueue p =
     offlineCollaborators
       \<lparr>queueAddTask :=
          (\<lambda>cs task. if task_id task = p then Some (ErrorObject ''QUEUE_FULL'') else None)\<rparr>"

text \<open>A batch of two files, and options that allow batches of one or two files.\<close>

definition testBatch :: sync_batch where
  "testBatch =
     \<lparr>batch_id = 0, batch_files = [testFile ''B.md'', testFile ''A.md''],
      batch_status = BatchPending, batch_progress = Some 0,
      batch_startTime = None, batch_endTime = None\<rparr>"

definition smallBatches :: initial_sync_options where
  "smallBatches = defaultOptions\<lparr>throttling := defaultThrottling\<lparr>minBatchSize := 1, maxBatchSize := 2\<rparr>\<rparr>"

text \<open>Options with \<open>maxBatchSize\<close> set to 0, which the constructor takes as given.\<close>

definition zeroMaxOptions :: initial_sync_options where
  "zeroMaxOptions = defaultOptions\<lparr>throttling := defaultThrottling\<lparr>maxBatchSize := 0\<rparr>\<rparr>"

text \<open>Options with one priority rule, and options with a target duration of 1400 ms.\<close>

definition priorityOptions :: initial_sync_options where
  "priorityOptions =
     defaultOptions\<lparr>priorityRules := [\<lparr>rule_pattern = ''Projects/'', rule_priority = 10\<rparr>]\<rparr>"

definition slowTargetOptions :: initial_sync_options where
  "slowTargetOptions =
     defaultOptions\<lparr>throttling := defaultThrottling\<lparr>targetBatchDurationMs := 1400\<rparr>\<rparr>"

section \<open>Notions used in the statements and proofs\<close>

text \<open>Two states agree on the batch list, the progress counters and the adaptive size.\<close>

definition same_counters :: "sync_state \<Rightarrow> sync_state \<Rightarrow> bool" where
  "same_counters st st' \<longleftrightarrow>
     batches st' = batches st \<and> processedFiles st' = processedFiles st
     \<and> totalFiles st' = totalFiles st \<and> adaptiveBatchSize st' = adaptiveBatchSize st"

text \<open>
  Every file of a batch is either counted in \<^verbatim>\<open>processedFiles\<close> or reported twice
  under the context \<^verbatim>\<open>InitialSyncManager.processFile\<close> (by the \<^verbatim>\<open>catch\<close> of
  \<^verbatim>\<open>processFile\<close> and by the one of \<^verbatim>\<open>processBatch\<close>): the account grows by two
  per file.
\<close>

definition progress_account :: "sync_state \<Rightarrow> int" where
  "progress_account st = 2 * processedFiles st + int (processFile_reports st)"

text \<open>The priority of the task that a call hands to the queue.\<close>

fun added_priority :: "call \<Rightarrow> int option" where
  "added_priority (AddTask t) = Some (priority t)"
| "added_priority c = None"

text \<open>The files of the batches of \<^verbatim>\<open>this.batches\<close>, batch by batch.\<close>

definition batch_shape :: "sync_state \<Rightarrow> tfile list list" where
  "batch_shape st = map batch_files (batches st)"

text \<open>
  The batches claimed so far, those after \<open>before\<close>, cut the first \<open>n\<close> files in order,
  each into at least one file and at most \<open>max 1 maxBatchSize\<close>.
\<close>

definition partitioned ::
  "initial_sync_options \<Rightarrow> tfile list \<Rightarrow> tfile list list \<Rightarrow> nat \<Rightarrow> tfile list list \<Rightarrow> bool"
where
  "partitioned opts files before n shape \<longleftrightarrow>
     (\<exists>parts. shape = before @ parts \<and> concat parts = take n files
        \<and> (\<forall>p\<in>set parts. 1 \<le> length p
              \<and> int (length p) \<le> max 1 (maxBatchSize (throttling opts))))"

text \<open>Each worker holds the batch found at its place in \<^verbatim>\<open>this.batches\<close>.\<close>

definition workers_ok :: "(nat \<times> sync_batch) list \<Rightarrow> tfile list list \<Rightarrow> bool" where
  "workers_ok workers shape \<longleftrightarrow>
     (\<forall>w\<in>set workers. fst w < length shape \<and> shape ! fst w = batch_files (snd w))"

text \<open>
  Claims under an arbitrary trajectory of the adaptive batch size: before each call of
  \<^verbatim>\<open>getNextBatch\<close> the size is whatever the next element of the list says.
\<close>

fun claimWith ::
  "initial_sync_options \<Rightarrow> tfile list \<Rightarrow> int list \<Rightarrow> nat \<times> nat \<Rightarrow> sync_state
     \<Rightarrow> (nat \<times> nat) \<times> sync_state"
where
  "claimWith opts files [] cursor st = (cursor, st)"
| "claimWith opts files (p # ps) cursor st =
     (case getNextBatch opts files cursor (st\<lparr>adaptiveBatchSize := p\<rparr>) of
        None \<Rightarrow> (cursor, st)
      | Some (batch, cursor', st') \<Rightarrow> claimWith opts files ps cursor' st')"

section \<open>Task queue: one task per identity, admission, deletions\<close>

lemma findIndex_None_iff: "findIndex P xs = None \<longleftrightarrow> (\<forall>x\<in>set xs. \<not> P x)"
  by (induction xs) auto

lemma findIndex_Some_D:
  "findIndex P xs = Some i \<Longrightarrow> i < length xs \<and> P (xs ! i) \<and> (\<forall>j<i. \<not> P (xs ! j))"
proof (induction xs arbitrary: i)
  case Nil
  then show ?case by simp
next
  case (Cons x xs)
  show ?case
  proof (cases "P x")
    case True
    with Cons.prems show ?thesis by simp
  next
    case False
    with Cons.prems obtain k where k: "findIndex P xs = Some k" "i = Suc k"
      by auto
    from Cons.IH [OF k(1)] False k(2) show ?thesis
      by (auto simp: nth_Cons split: nat.splits)
  qed
qed

lemma coalesce_task_id: "coalesce cfg e t = Some t' \<Longrightarrow> task_id t' = task_id t"
  by (auto simp: coalesce_def split: if_splits)

lemma map_task_id_update:
  "i < length q \<Longrightarrow> task_id t' = task_id (q ! i) \<Longrightarrow> map task_id (q[i := t']) = map task_id q"
  by (simp add: map_update list_update_same_conv)

lemma addTask_ids:
  assumes "addTask cfg q t = Inr q'"
  shows "map task_id q' =
     (if task_id t \<in> task_id ` set q then map task_id q else map task_id q @ [task_id t])"
proof (cases "findIndex (\<lambda>e. task_id e = task_id t) q")
  case None
  then have "task_id t \<notin> task_id ` set q"
    by (auto simp: findIndex_None_iff)
  with assms None show ?thesis
    by (auto simp: addTask_def split: if_splits)
next
  case (Some i)
  from findIndex_Some_D [OF Some] have i: "i < length q" "task_id (q ! i) = task_id t"
    by auto
  then have mem: "task_id t \<in> task_id ` set q"
    by (metis image_eqI nth_mem)
  show ?thesis
  proof (cases "coalesce cfg (q ! i) t")
    case None
    with assms Some mem show ?thesis
      by (auto simp: addTask_def split: if_splits)
  next
    case (Some t')
    with coalesce_task_id [OF Some] i have "map task_id (q[i := t']) = map task_id q"
      by (simp add: map_task_id_update)
    with assms Some \<open>findIndex _ q = Some i\<close> mem show ?thesis
      by (auto simp: addTask_def split: if_splits)
  qed
qed

lemma addTask_error: "addTask cfg q t = Inl e \<longleftrightarrow> maxQueueSize cfg \<le> length q"
  by (cases e) (auto simp: addTask_def split: option.splits)

lemma addTask_cases:
  obtains "maxQueueSize cfg \<le> length q" "addTask cfg q t = Inl QueueFullError"
  | q' where "length q < maxQueueSize cfg" "addTask cfg q t = Inr q'"
proof (cases "addTask cfg q t")
  case (Inl e)
  then have "maxQueueSize cfg \<le> length q" by (simp add: addTask_error)
  moreover from Inl have "addTask cfg q t = Inl QueueFullError" by (cases e) simp
  ultimately show ?thesis using that(1) by blast
next
  case (Inr q')
  have "\<not> maxQueueSize cfg \<le> length q"
    using Inr addTask_error [of cfg q t QueueFullError] by auto
  with Inr show ?thesis using that(2) by auto
qed

lemma queue_after_ids:
  "map task_id (queue_after cfg q t) =
     (if length q < maxQueueSize cfg \<and> task_id t \<notin> task_id ` set q
      then map task_id q @ [task_id t] else map task_id q)"
  by (cases rule: addTask_cases [of cfg q t]) (auto simp: queue_after_def dest: addTask_ids)

lemma queue_after_distinct:
  "distinct (map task_id q) \<Longrightarrow> distinct (map task_id (queue_after cfg q t))"
  by (auto simp: queue_after_ids)

lemma addTasks_distinct:
  "distinct (map task_id q) \<Longrightarrow> distinct (map task_id (addTasks cfg q ts))"
  by (induction ts arbitrary: q) (auto simp: queue_after_distinct)

lemma distinct_identities_length:
  "distinct (map task_id q) \<Longrightarrow> distinct_identities q = length q"
  by (simp add: distinct_identities_def distinct_remdups_id)

lemma queue_after_length_le:
  "length q \<le> maxQueueSize cfg \<Longrightarrow> length (queue_after cfg q t) \<le> maxQueueSize cfg"
  using arg_cong [OF queue_after_ids [of cfg q t], of length]
  by (auto split: if_splits)

lemma addTasks_length_le:
  "length q \<le> maxQueueSize cfg \<Longrightarrow> length (addTasks cfg q ts) \<le> maxQueueSize cfg"
  by (induction ts arbitrary: q) (auto simp: queue_after_length_le)

lemma same_id_same_task:
  "distinct (map task_id q) \<Longrightarrow> a \<in> set q \<Longrightarrow> b \<in> set q \<Longrightarrow> task_id a = task_id b \<Longrightarrow> a = b"
  by (meson distinct_map inj_onD)

lemma findIndex_of_member:
  assumes "distinct (map task_id q)" "e \<in> set q" "task_id e = task_id t"
  obtains i where "findIndex (\<lambda>x. task_id x = task_id t) q = Some i" "i < length q" "q ! i = e"
proof -
  from assms(2,3) have "findIndex (\<lambda>x. task_id x = task_id t) q \<noteq> None"
    by (auto simp: findIndex_None_iff)
  then obtain i where i: "findIndex (\<lambda>x. task_id x = task_id t) q = Some i"
    by auto
  from findIndex_Some_D [OF i] have "i < length q" "task_id (q ! i) = task_id t"
    by auto
  with assms have "q ! i = e"
    by (metis nth_mem same_id_same_task)
  with i \<open>i < length q\<close> show ?thesis using that by blast
qed

lemma tasks_for_update:
  assumes "distinct (map task_id q)" "i < length q" "task_id t' = task_id (q ! i)"
  shows "tasks_for (task_id t') (q[i := t']) = [t']"
proof -
  from assms(2) have q: "q = take i q @ q ! i # drop (Suc i) q"
    by (simp add: id_take_nth_drop)
  from assms(1) have "distinct (map task_id (take i q @ q ! i # drop (Suc i) q))"
    using q by simp
  then have "\<forall>x\<in>set (take i q). task_id x \<noteq> task_id (q ! i)"
    and "\<forall>x\<in>set (drop (Suc i) q). task_id x \<noteq> task_id (q ! i)"
    by (auto simp: image_iff)
  then have "filter (\<lambda>e. task_id e = task_id t') (take i q) = []"
    and "filter (\<lambda>e. task_id e = task_id t') (drop (Suc i) q) = []"
    using assms(3) by (auto simp: filter_empty_conv)
  then show ?thesis
    using assms(2) by (simp add: tasks_for_def upd_conv_take_nth_drop)
qed

lemma delete_dropped:
  assumes "distinct (map task_id q)" "d \<in> set q" "task_id d = task_id t"
    "task_type d = DELETE" "task_type t \<noteq> DELETE"
  shows "queue_after cfg q t = q"
proof (cases rule: addTask_cases [of cfg q t])
  case 1
  then show ?thesis by (simp add: queue_after_def)
next
  case (2 q')
  from assms(1-3) obtain i where
    i: "findIndex (\<lambda>x. task_id x = task_id t) q = Some i" "q ! i = d"
    by (rule findIndex_of_member)
  with assms(4,5) 2(1) show ?thesis
    by (simp add: queue_after_def addTask_def coalesce_def)
qed

lemma delete_replaces:
  assumes "distinct (map task_id q)" "e \<in> set q" "task_id e = task_id t"
    "task_type e \<noteq> DELETE" "task_type t = DELETE" "length q < maxQueueSize cfg"
  shows "\<exists>i<length q. q ! i = e \<and>
           addTask cfg q t = Inr (q[i := t\<lparr>priority := boostedPriority\<rparr>])"
proof -
  from assms(1-3) obtain i where
    i: "findIndex (\<lambda>x. task_id x = task_id t) q = Some i" "i < length q" "q ! i = e"
    by (rule findIndex_of_member)
  with assms(4-6) have "addTask cfg q t = Inr (q[i := t\<lparr>priority := boostedPriority\<rparr>])"
    by (simp add: addTask_def coalesce_def)
  with i show ?thesis by blast
qed

lemma delete_queued_after:
  assumes "distinct (map task_id q)" "delete_queued i q"
  shows "delete_queued i (queue_after cfg q t)"
proof (cases rule: addTask_cases [of cfg q t])
  case 1
  with assms(2) show ?thesis by (simp add: queue_after_def)
next
  case (2 q')
  from assms(2) obtain d where d: "d \<in> set q" "task_id d = i" "task_type d = DELETE"
    by (auto simp: delete_queued_def)
  show ?thesis
  proof (cases "findIndex (\<lambda>x. task_id x = task_id t) q")
    case None
    with 2(1) d show ?thesis
      by (auto simp: queue_after_def addTask_def delete_queued_def)
  next
    case (Some j)
    from findIndex_Some_D [OF Some] have j: "j < length q" "task_id (q ! j) = task_id t"
      by auto
    show ?thesis
    proof (cases "coalesce cfg (q ! j) t")
      case None
      with Some 2(1) assms(2) show ?thesis
        by (simp add: queue_after_def addTask_def)
    next
      case (Some t')
      have after: "queue_after cfg q t = q[j := t']"
        using Some \<open>findIndex _ q = Some j\<close> 2(1) by (simp add: queue_after_def addTask_def)
      show ?thesis
      proof (cases "q ! j = d")
        case True
        with Some d(3) have "task_type t' = DELETE" "task_id t' = task_id t"
          by (auto simp: coalesce_def split: if_splits)
        moreover from True j d(2) have "task_id t = i" by simp
        moreover have "t' \<in> set (q[j := t'])"
          using j(1) by (simp add: set_update_memI)
        ultimately show ?thesis
          unfolding after delete_queued_def by blast
      next
        case False
        from d(1) obtain k where k: "k < length q" "q ! k = d"
          by (auto simp: in_set_conv_nth)
        with False have "k \<noteq> j" by auto
        with k have "(q[j := t']) ! k = d" "k < length (q[j := t'])"
          by simp_all
        then have "d \<in> set (q[j := t'])"
          by (metis nth_mem)
        with d(2,3) show ?thesis
          unfolding after delete_queued_def by blast
      qed
    qed
  qed
qed

lemma delete_queued_addTasks:
  "distinct (map task_id q) \<Longrightarrow> delete_queued i q \<Longrightarrow> delete_queued i (addTasks cfg q ts)"
  by (induction ts arbitrary: q) (auto simp: delete_queued_after queue_after_distinct)

lemma tasks_for_delete_queued:
  assumes "distinct (map task_id q)" "delete_queued i q"
  shows "\<exists>d. tasks_for i q = [d] \<and> task_type d = DELETE"
proof -
  from assms(2) obtain d where d: "d \<in> set q" "task_id d = i" "task_type d = DELETE"
    by (auto simp: delete_queued_def)
  then obtain k where k: "k < length q" "q ! k = d"
    by (auto simp: in_set_conv_nth)
  have "tasks_for (task_id d) (q[k := d]) = [d]"
    using assms(1) k by (intro tasks_for_update) auto
  with k d show ?thesis by (auto simp: list_update_same_conv)
qed

lemma tasks_for_length_le_1:
  assumes "distinct (map task_id q)"
  shows "length (tasks_for i q) \<le> 1"
proof -
  have "map task_id (tasks_for i q) = replicate (length (tasks_for i q)) i"
    by (simp add: tasks_for_def map_replicate_const [symmetric] cong: map_cong)
  moreover from assms have "distinct (map task_id (tasks_for i q))"
    by (simp add: tasks_for_def distinct_map_filter)
  ultimately have "distinct (replicate (length (tasks_for i q)) i)"
    by simp
  then show ?thesis
  proof (cases "length (tasks_for i q)")
    case 0
    then show ?thesis by simp
  next
    case (Suc n)
    with \<open>distinct (replicate (length (tasks_for i q)) i)\<close> have "n = 0"
      by (cases n) auto
    with Suc show ?thesis by simp
  qed
qed

text \<open>
  Claim C1, as amended. Starting from a queue with at most one task per identity (the
  empty queue is one), every sequence of \<^verbatim>\<open>addTask\<close> calls leaves at most one task per
  identity. While a DELETE for an identity is queued, an incoming CREATE or UPDATE for
  it leaves the queue as it was, and the DELETE stays the only task of that identity
  through every later sequence of calls. A DELETE arriving on a queued CREATE or UPDATE
  of its identity becomes, with the boosted priority, the only task of that identity,
  provided the call is admitted, that is, the queue holds fewer entries than its bound.
\<close>

theorem enqueue_one_task_per_identity:
  fixes cfg :: "'m queue_config"
  assumes "distinct (map task_id q)"
  shows "distinct (map task_id (addTasks cfg q ts))
    \<and> length (tasks_for i (addTasks cfg q ts)) \<le> 1
    \<and> (delete_queued (task_id t) q \<and> task_type t \<noteq> DELETE \<longrightarrow> queue_after cfg q t = q)
    \<and> (length q < maxQueueSize cfg \<and> task_type t = DELETE
          \<and> (\<exists>e\<in>set q. task_id e = task_id t \<and> task_type e \<noteq> DELETE)
        \<longrightarrow> tasks_for (task_id t) (queue_after cfg q t) = [t\<lparr>priority := boostedPriority\<rparr>])
    \<and> (delete_queued i q \<longrightarrow>
          (\<exists>d. tasks_for i (addTasks cfg q ts) = [d] \<and> task_type d = DELETE))"
proof (intro conjI impI)
  show inv: "distinct (map task_id (addTasks cfg q ts))"
    using assms by (rule addTasks_distinct)
  then show "length (tasks_for i (addTasks cfg q ts)) \<le> 1"
    by (rule tasks_for_length_le_1)
next
  assume "delete_queued (task_id t) q \<and> task_type t \<noteq> DELETE"
  then show "queue_after cfg q t = q"
    using assms by (auto simp: delete_queued_def intro: delete_dropped)
next
  assume a: "length q < maxQueueSize cfg \<and> task_type t = DELETE
          \<and> (\<exists>e\<in>set q. task_id e = task_id t \<and> task_type e \<noteq> DELETE)"
  then obtain e where e: "e \<in> set q" "task_id e = task_id t" "task_type e \<noteq> DELETE"
    by blast
  from delete_replaces [OF assms e] a obtain j where
    j: "j < length q" "q ! j = e" "addTask cfg q t = Inr (q[j := t\<lparr>priority := boostedPriority\<rparr>])"
    by blast
  have "tasks_for (task_id (t\<lparr>priority := boostedPriority\<rparr>)) (q[j := t\<lparr>priority := boostedPriority\<rparr>])
          = [t\<lparr>priority := boostedPriority\<rparr>]"
    using assms j(1,2) e(2) by (intro tasks_for_update) auto
  with j(3) show "tasks_for (task_id t) (queue_after cfg q t) = [t\<lparr>priority := boostedPriority\<rparr>]"
    by (simp add: queue_after_def)
next
  assume "delete_queued i q"
  with assms have "delete_queued i (addTasks cfg q ts)"
    by (rule delete_queued_addTasks)
  with addTasks_distinct [OF assms]
  show "\<exists>d. tasks_for i (addTasks cfg q ts) = [d] \<and> task_type d = DELETE"
    by (rule tasks_for_delete_queued)
qed

text \<open>
  The theorem on the task \<^verbatim>\<open>Note.md\<close> of the queue tests: CREATE, DELETE, UPDATE in
  this order leave the boosted DELETE alone in the queue.
\<close>

theorem enqueue_one_task_per_identity_witness:
  "addTasks (test_config 1000) []
       [createTask ''Note.md'' CREATE, createTask ''Note.md'' DELETE, createTask ''Note.md'' UPDATE]
     = [(createTask ''Note.md'' DELETE)\<lparr>priority := 3\<rparr>]
   \<and> distinct (map task_id (addTasks (test_config 1000) []
       [createTask ''Note.md'' CREATE, createTask ''Note.md'' DELETE, createTask ''Note.md'' UPDATE]))
   \<and> queue_after (test_config 1000) [createTask ''Note.md'' DELETE] (createTask ''Note.md'' UPDATE)
       = [createTask ''Note.md'' DELETE]
   \<and> tasks_for ''Note.md''
        (queue_after (test_config 1000) [createTask ''Note.md'' CREATE] (createTask ''Note.md'' DELETE))
       = [(createTask ''Note.md'' DELETE)\<lparr>priority := 3\<rparr>]"
  using enqueue_one_task_per_identity [of "[]" "test_config 1000"
      "[createTask ''Note.md'' CREATE, createTask ''Note.md'' DELETE, createTask ''Note.md'' UPDATE]"
      "''Note.md''" "createTask ''Note.md'' UPDATE"]
    enqueue_one_task_per_identity [of "[createTask ''Note.md'' DELETE]" "test_config 1000"
      "[]" "''Note.md''" "createTask ''Note.md'' UPDATE"]
    enqueue_one_task_per_identity [of "[createTask ''Note.md'' CREATE]" "test_config 1000"
      "[]" "''Note.md''" "createTask ''Note.md'' DELETE"]
  by (simp add: createTask_def test_config_def queue_after_def addTask_def coalesce_def
      boostedPriority_def tasks_for_def delete_queued_def)

text \<open>
  Claim C1 as stated fails at a full queue: with a bound of two entries and the CREATE
  tasks for \<^verbatim>\<open>Note.md\<close> and \<^verbatim>\<open>Other.md\<close> queued, the DELETE for \<^verbatim>\<open>Note.md\<close> is
  rejected with \<open>QueueFullError\<close> by the admission check, which comes before the
  coalescing rules, and the CREATE for \<^verbatim>\<open>Note.md\<close> stays queued.
\<close>

theorem delete_rejected_at_full_queue_counterexample:
  "addTasks (test_config 2) [] [createTask ''Note.md'' CREATE, createTask ''Other.md'' CREATE]
     = [createTask ''Note.md'' CREATE, createTask ''Other.md'' CREATE]
   \<and> addTask (test_config 2) [createTask ''Note.md'' CREATE, createTask ''Other.md'' CREATE]
         (createTask ''Note.md'' DELETE)
       = Inl QueueFullError
   \<and> addTasks (test_config 2) []
         [createTask ''Note.md'' CREATE, createTask ''Other.md'' CREATE, createTask ''Note.md'' DELETE]
       = [createTask ''Note.md'' CREATE, createTask ''Other.md'' CREATE]"
  by (simp add: createTask_def test_config_def queue_after_def addTask_def coalesce_def)

text \<open>
  Claim C2, as amended. On a queue with one task per identity, \<^verbatim>\<open>addTask\<close> rejects
  with \<open>QueueFullError\<close> exactly when the queue already holds the configured maximum
  number of distinct identities (or more); a call made while the queue is strictly below
  the bound is never rejected. On every queue built from the empty one by \<^verbatim>\<open>addTask\<close>
  calls the count never exceeds the bound, and the call is rejected exactly when the
  count equals it.
\<close>

theorem addTask_rejects_iff_full:
  assumes "distinct (map task_id q)"
  shows "(addTask cfg q t = Inl QueueFullError) = (maxQueueSize cfg \<le> distinct_identities q)
    \<and> (distinct_identities q < maxQueueSize cfg \<longrightarrow> (\<exists>q'. addTask cfg q t = Inr q'))
    \<and> ((addTask cfg (addTasks cfg [] ts) t = Inl QueueFullError)
         = (distinct_identities (addTasks cfg [] ts) = maxQueueSize cfg))"
proof (intro conjI impI)
  show "(addTask cfg q t = Inl QueueFullError) = (maxQueueSize cfg \<le> distinct_identities q)"
    using assms by (simp add: addTask_error distinct_identities_length)
  show "\<exists>q'. addTask cfg q t = Inr q'" if "distinct_identities q < maxQueueSize cfg"
    using that assms by (cases rule: addTask_cases [of cfg q t]) (auto simp: distinct_identities_length)
  have "distinct (map task_id (addTasks cfg [] ts))"
    by (simp add: addTasks_distinct)
  moreover have "length (addTasks cfg [] ts) \<le> maxQueueSize cfg"
    by (simp add: addTasks_length_le)
  ultimately show "(addTask cfg (addTasks cfg [] ts) t = Inl QueueFullError)
         = (distinct_identities (addTasks cfg [] ts) = maxQueueSize cfg)"
    by (auto simp: addTask_error distinct_identities_length)
qed

text \<open>
  The theorem with a bound of two: the second identity is admitted, the third rejected.
\<close>

theorem addTask_rejects_iff_full_witness:
  "addTask (test_config 2) [createTask ''A.md'' CREATE] (createTask ''B.md'' CREATE)
      = Inr [createTask ''A.md'' CREATE, createTask ''B.md'' CREATE]
   \<and> distinct_identities [createTask ''A.md'' CREATE] < maxQueueSize (test_config 2)
   \<and> addTask (test_config 2) [createTask ''A.md'' CREATE, createTask ''B.md'' CREATE]
        (createTask ''C.md'' CREATE) = Inl QueueFullError"
  using addTask_rejects_iff_full [of "[createTask ''A.md'' CREATE]" "test_config 2"
      "createTask ''B.md'' CREATE" "[]"]
    addTask_rejects_iff_full [of "[createTask ''A.md'' CREATE, createTask ''B.md'' CREATE]"
      "test_config 2" "createTask ''C.md'' CREATE" "[]"]
  by (simp add: createTask_def test_config_def addTask_def distinct_identities_def)

text \<open>
  Claim C2 as stated fails for a queue at the limit: a queue built by two admitted calls
  holds two identities, which is at (not above) the bound of two, and the next call is
  rejected, be it for a new identity or for one already queued.
\<close>

theorem addTask_at_limit_counterexample:
  "addTasks (test_config 2) [] [createTask ''A.md'' CREATE, createTask ''B.md'' CREATE]
      = [createTask ''A.md'' CREATE, createTask ''B.md'' CREATE]
   \<and> distinct_identities [createTask ''A.md'' CREATE, createTask ''B.md'' CREATE]
      \<le> maxQueueSize (test_config 2)
   \<and> addTask (test_config 2) [createTask ''A.md'' CREATE, createTask ''B.md'' CREATE]
        (createTask ''C.md'' CREATE) = Inl QueueFullError
   \<and> addTask (test_config 2) [createTask ''A.md'' CREATE, createTask ''B.md'' CREATE]
        (createTask ''B.md'' UPDATE) = Inl QueueFullError"
  by (simp add: createTask_def test_config_def queue_after_def addTask_def coalesce_def
      distinct_identities_def)

text \<open>
  Claim C4, as amended. When a DELETE is enqueued while a CREATE or UPDATE of the same
  identity is queued and the queue holds fewer entries than its bound, the DELETE takes
  the place of that task and its priority is set to the boosted value 3, whatever
  priority it arrived with. This is the highest priority of the queue as long as no
  queued task carries a priority above 3.
\<close>

theorem delete_replaces_queued_mutation:
  assumes "distinct (map task_id q)" "e \<in> set q" "task_id e = task_id t"
    "task_type e \<noteq> DELETE" "task_type t = DELETE" "length q < maxQueueSize cfg"
  shows "boostedPriority = 3
     \<and> (\<exists>i<length q. q ! i = e
           \<and> addTask cfg q t = Inr (q[i := t\<lparr>priority := boostedPriority\<rparr>])
           \<and> task_type (queue_after cfg q t ! i) = DELETE
           \<and> priority (queue_after cfg q t ! i) = 3
           \<and> ((\<forall>x\<in>set q. priority x \<le> 3)
                \<longrightarrow> (\<forall>x\<in>set (queue_after cfg q t).
                       priority x \<le> priority (queue_after cfg q t ! i))))"
proof -
  from delete_replaces [OF assms] obtain i where
    i: "i < length q" "q ! i = e"
       "addTask cfg q t = Inr (q[i := t\<lparr>priority := boostedPriority\<rparr>])"
    by blast
  from i(3) have after: "queue_after cfg q t = q[i := t\<lparr>priority := boostedPriority\<rparr>]"
    by (simp add: queue_after_def)
  from i(1) have stored: "queue_after cfg q t ! i = t\<lparr>priority := boostedPriority\<rparr>"
    by (simp add: after)
  have "priority x \<le> priority (queue_after cfg q t ! i)"
    if low: "\<forall>y\<in>set q. priority y \<le> 3" and x: "x \<in> set (queue_after cfg q t)" for x
  proof -
    from x have "x \<in> insert (t\<lparr>priority := boostedPriority\<rparr>) (set q)"
      using set_update_subset_insert [of q i "t\<lparr>priority := boostedPriority\<rparr>"]
      by (auto simp: after)
    with low show ?thesis by (auto simp: stored boostedPriority_def)
  qed
  hence top: "(\<forall>x\<in>set q. priority x \<le> 3)
      \<longrightarrow> (\<forall>x\<in>set (queue_after cfg q t). priority x \<le> priority (queue_after cfg q t ! i))"
    by blast
  have ty: "task_type (queue_after cfg q t ! i) = DELETE"
    using assms(5) by (simp add: stored)
  have pr: "priority (queue_after cfg q t ! i) = 3"
    by (simp add: stored boostedPriority_def)
  have "boostedPriority = 3" by (simp add: boostedPriority_def)
  with i top ty pr show ?thesis by blast
qed

text \<open>
  The second queue test: CREATE then DELETE of \<^verbatim>\<open>Note.md\<close> leave one task, the
  DELETE with priority 3. Beside a queued CREATE of another file with priority 2, the
  DELETE of \<^verbatim>\<open>Note.md\<close> has the highest priority of the queue.
\<close>

theorem delete_replaces_queued_mutation_witness:
  "addTask (test_config 1000) [createTask ''Note.md'' CREATE] (createTask ''Note.md'' DELETE)
     = Inr [(createTask ''Note.md'' DELETE)\<lparr>priority := 3\<rparr>]
   \<and> addTask (test_config 1000)
        [(createTask ''Other.md'' CREATE)\<lparr>priority := 2\<rparr>, createTask ''Note.md'' UPDATE]
        (createTask ''Note.md'' DELETE)
     = Inr [(createTask ''Other.md'' CREATE)\<lparr>priority := 2\<rparr>,
            (createTask ''Note.md'' DELETE)\<lparr>priority := 3\<rparr>]
   \<and> list_all (\<lambda>x. priority x \<le> 3)
        (queue_after (test_config 1000)
           [(createTask ''Other.md'' CREATE)\<lparr>priority := 2\<rparr>, createTask ''Note.md'' UPDATE]
           (createTask ''Note.md'' DELETE))"
proof -
  let ?q = "[(createTask ''Other.md'' CREATE)\<lparr>priority := 2\<rparr>, createTask ''Note.md'' UPDATE]"
  let ?t = "createTask ''Note.md'' DELETE"
  let ?after = "queue_after (test_config 1000) ?q ?t"
  have single: "addTask (test_config 1000) [createTask ''Note.md'' CREATE] ?t
     = Inr [(createTask ''Note.md'' DELETE)\<lparr>priority := 3\<rparr>]"
    using delete_replaces_queued_mutation [of "[createTask ''Note.md'' CREATE]"
      "createTask ''Note.md'' CREATE" "createTask ''Note.md'' DELETE" "test_config 1000"]
    by (simp add: createTask_def test_config_def boostedPriority_def)
  have "distinct (map task_id ?q)" "createTask ''Note.md'' UPDATE \<in> set ?q"
    "task_id (createTask ''Note.md'' UPDATE) = task_id ?t"
    "task_type (createTask ''Note.md'' UPDATE) \<noteq> DELETE" "task_type ?t = DELETE"
    "length ?q < maxQueueSize (test_config 1000)"
    by (simp_all add: createTask_def test_config_def)
  from delete_replaces_queued_mutation [OF this] obtain i where
    i: "i < length ?q" "?q ! i = createTask ''Note.md'' UPDATE"
      "addTask (test_config 1000) ?q ?t = Inr (?q[i := ?t\<lparr>priority := boostedPriority\<rparr>])"
      "priority (?after ! i) = 3"
      "(\<forall>x\<in>set ?q. priority x \<le> 3) \<longrightarrow> (\<forall>x\<in>set ?after. priority x \<le> priority (?after ! i))"
    by blast
  have "i = 1"
  proof (rule ccontr)
    assume "i \<noteq> 1"
    with i(1) have "i = 0" by simp
    with i(2) show False by (simp add: createTask_def)
  qed
  with i(3) have pair: "addTask (test_config 1000) ?q ?t
     = Inr [(createTask ''Other.md'' CREATE)\<lparr>priority := 2\<rparr>,
            (createTask ''Note.md'' DELETE)\<lparr>priority := 3\<rparr>]"
    by (simp add: boostedPriority_def)
  have "\<forall>x\<in>set ?q. priority x \<le> 3" by (simp add: createTask_def)
  with i(4,5) have "\<forall>x\<in>set ?after. priority x \<le> 3" by simp
  hence "list_all (\<lambda>x. priority x \<le> 3) ?after" by (simp only: list_all_iff)
  with single pair show ?thesis by (intro conjI)
qed

text \<open>
  Claim C4 as stated fails at a full queue: with a bound of two and two tasks queued, the
  DELETE for the queued UPDATE of \<^verbatim>\<open>B.md\<close> is rejected and replaces nothing. And 3 is
  not the highest priority that is defined: a priority rule of the scheduler gives the
  CREATE task of a file any priority, here 10 (the priority of the task that
  \<^verbatim>\<open>processFile\<close> hands to the queue), and the boosted DELETE of another file is then
  queued with a lower priority than that task.
\<close>

theorem delete_boost_counterexample:
  "addTask (test_config 2) [createTask ''A.md'' CREATE, createTask ''B.md'' UPDATE]
      (createTask ''B.md'' DELETE) = Inl QueueFullError
   \<and> getFilePriority priorityOptions ''Projects/A.md'' = 10
   \<and> List.map_filter added_priority
        (calls (fst (processFile offlineCollaborators priorityOptions
                       (testFile ''Projects/A.md'') (initialState priorityOptions)))) = [10]
   \<and> addTask (test_config 1000)
        [(createTask ''Projects/A.md'' CREATE)
           \<lparr>priority := getFilePriority priorityOptions ''Projects/A.md''\<rparr>,
         createTask ''Note.md'' CREATE]
        (createTask ''Note.md'' DELETE)
     = Inr [(createTask ''Projects/A.md'' CREATE)\<lparr>priority := 10\<rparr>,
            (createTask ''Note.md'' DELETE)\<lparr>priority := 3\<rparr>]
   \<and> boostedPriority < getFilePriority priorityOptions ''Projects/A.md''"
  by (simp add: createTask_def test_config_def addTask_def coalesce_def boostedPriority_def
      testFile_def testMetadata_def offlineCollaborators_def priorityOptions_def
      defaultOptions_def defaultThrottling_def initialState_def
      processFile_def processFile_try_def isSyncFile_def effectiveSyncFilePath_def
      calculateFileHash_def markPending_def embeddingWarning_def enqueueCreate_def dateNow_def
      record_call_def handleError_def getFilePriority_def Let_def List.map_filter_simps)

section \<open>The control rule of the adaptive batch size\<close>

lemma adjustBatchSize_only_size:
  "adjustBatchSize opts d n st =
     st\<lparr>adaptiveBatchSize := adaptiveBatchSize (adjustBatchSize opts d n st)\<rparr>"
  by (simp add: adjustBatchSize_def Let_def)

lemma round_times_1_25_ge: "0 \<le> p \<Longrightarrow> p \<le> round_times_1_25 p"
  by (simp add: round_times_1_25_def)

lemma round_times_0_8_le: "0 \<le> p \<Longrightarrow> round_times_0_8 p \<le> p"
  by (simp add: round_times_0_8_def)

lemma round_times_0_8_ge_1: "1 \<le> p \<Longrightarrow> 1 \<le> round_times_0_8 p"
  by (simp add: round_times_0_8_def)

subsection \<open>The double-precision thresholds\<close>

text \<open>
  The rounding of a product to 53 bits moves it by at most half a unit in the last
  place, so the lower threshold of a target that is not negative is at most the
  target, and the upper threshold at least the target.
\<close>

lemma bit_length_upper: "n < 2 ^ bit_length n"
proof (induction n rule: bit_length.induct)
  case (1 n)
  show ?case
  proof (cases "n = 0")
    case True
    then show ?thesis by (simp add: bit_length.simps)
  next
    case False
    from 1 [OF False] have "n div 2 < 2 ^ bit_length (n div 2)" .
    hence "n < 2 * 2 ^ bit_length (n div 2)" by linarith
    with False show ?thesis by (simp add: bit_length.simps [of n])
  qed
qed

lemma bit_length_lower: "n \<noteq> 0 \<Longrightarrow> 2 ^ (bit_length n - 1) \<le> n"
proof (induction n rule: bit_length.induct)
  case (1 n)
  from "1.prems" have n: "n \<noteq> 0" .
  show ?case
  proof (cases "n div 2 = 0")
    case True
    with n show ?thesis by (simp add: bit_length.simps [of n] bit_length.simps [of 0])
  next
    case False
    from "1.IH" [OF n False] have ih: "2 ^ (bit_length (n div 2) - 1) \<le> n div 2" .
    from False have "bit_length (n div 2) \<noteq> 0" by (simp add: bit_length.simps [of "n div 2"])
    then obtain k where k: "bit_length (n div 2) = Suc k" by (cases "bit_length (n div 2)") auto
    from ih k have "2 * 2 ^ k \<le> n" by simp
    with n k show ?thesis by (simp add: bit_length.simps [of n])
  qed
qed

lemma round_half_even_0: "round_half_even n 0 = n"
  by (simp add: round_half_even_def)

lemma round_half_even_upper: "2 * (round_half_even n s * 2 ^ s) \<le> 2 * n + 2 ^ s"
proof -
  define q r where "q = n div 2 ^ s" and "r = n mod 2 ^ s"
  have n: "n = q * 2 ^ s + r" unfolding q_def r_def by (rule div_mult_mod_eq [symmetric])
  show ?thesis
    unfolding round_half_even_def Let_def q_def [symmetric] r_def [symmetric]
    using n by (auto simp: algebra_simps)
qed

lemma round_half_even_lower: "2 * n \<le> 2 * (round_half_even n s * 2 ^ s) + 2 ^ s"
proof -
  define q r where "q = n div 2 ^ s" and "r = n mod 2 ^ s"
  have n: "n = q * 2 ^ s + r" unfolding q_def r_def by (rule div_mult_mod_eq [symmetric])
  have r: "r < 2 ^ s" by (simp add: r_def)
  show ?thesis
    unfolding round_half_even_def Let_def q_def [symmetric] r_def [symmetric]
    using n r by (auto simp: algebra_simps)
qed

lemma shift_bound:
  assumes "bit_length n - 53 = s" "s \<noteq> 0"
  shows "2 ^ 52 * 2 ^ s \<le> n"
proof -
  from assms have L: "bit_length n = s + 53" by simp
  hence "n \<noteq> 0" by (cases "n = 0") (auto simp: bit_length.simps [of 0])
  from bit_length_lower [OF this] L have "(2::nat) ^ (s + 52) \<le> n" by (simp add: add.commute)
  thus ?thesis by (simp add: power_add mult.commute)
qed

lemma times_0_6_le: "0 \<le> x \<Longrightarrow> times_0_6 x \<le> of_int x"
proof -
  assume x: "0 \<le> x"
  define n where "n = nat \<bar>x\<bar> * 5404319552844595"
  define s where "s = bit_length n - 53"
  define R where "R = round_half_even n s * 2 ^ s"
  have R: "R \<le> 2 ^ 53 * nat x"
  proof (cases "s = 0")
    case True
    with x show ?thesis by (simp add: R_def n_def round_half_even_0)
  next
    case False
    from shift_bound [OF s_def [symmetric] False] have "2 ^ 52 * 2 ^ s \<le> n" .
    moreover from round_half_even_upper [of n s] have "2 * R \<le> 2 * n + 2 ^ s" by (simp add: R_def)
    ultimately have "2 ^ 53 * R \<le> (2 ^ 53 + 1) * n" by simp
    also have "\<dots> \<le> 2 ^ 53 * (2 ^ 53 * nat x)" using x by (simp add: n_def)
    finally show ?thesis by simp
  qed
  have "times_0_6 x = of_int (sgn x) * of_nat R / 2 ^ 53"
    by (simp add: times_0_6_def double_times_def Let_def n_def [symmetric] s_def [symmetric] R_def)
  also have "\<dots> \<le> of_nat R / 2 ^ 53"
    using x by (cases "x = 0") (simp_all add: R_def n_def round_half_even_def)
  also have "\<dots> \<le> of_nat (2 ^ 53 * nat x) / 2 ^ 53"
    using R by (simp add: divide_right_mono del: of_nat_mult of_nat_power)
  also have "\<dots> = of_int x" using x by simp
  finally show ?thesis .
qed

lemma times_1_4_ge: "0 \<le> x \<Longrightarrow> of_int x \<le> times_1_4 x"
proof -
  assume x: "0 \<le> x"
  define n where "n = nat \<bar>x\<bar> * 6305039478318694"
  define s where "s = bit_length n - 53"
  define R where "R = round_half_even n s * 2 ^ s"
  have R: "2 ^ 52 * nat x \<le> R"
  proof (cases "s = 0")
    case True
    with x show ?thesis by (simp add: R_def n_def round_half_even_0)
  next
    case False
    from shift_bound [OF s_def [symmetric] False] have "2 ^ 52 * 2 ^ s \<le> n" .
    moreover from round_half_even_lower [of n s] have "2 * n \<le> 2 * R + 2 ^ s" by (simp add: R_def)
    ultimately have "(2 ^ 53 - 1) * n \<le> 2 ^ 53 * R" by simp
    moreover have "2 ^ 53 * (2 ^ 52 * nat x) \<le> (2 ^ 53 - 1) * n" using x by (simp add: n_def)
    ultimately show ?thesis by simp
  qed
  have "of_int x = (of_nat (2 ^ 52 * nat x) :: rat) / 2 ^ 52" using x by simp
  also have "\<dots> \<le> of_nat R / 2 ^ 52"
    using R by (simp add: divide_right_mono del: of_nat_mult of_nat_power)
  also have "\<dots> \<le> of_int (sgn x) * of_nat R / 2 ^ 52"
    using x by (cases "x = 0") (simp_all add: R_def n_def round_half_even_def)
  also have "\<dots> = times_1_4 x"
    by (simp add: times_1_4_def double_times_def Let_def n_def [symmetric] s_def [symmetric] R_def)
  finally show ?thesis .
qed

lemma times_0_6_nonpos: "x \<le> 0 \<Longrightarrow> times_0_6 x \<le> 0"
proof -
  assume "x \<le> 0"
  hence "(of_int (sgn x) :: rat) \<le> 0" by (cases "x = 0") simp_all
  hence "(of_int (sgn x) :: rat) * (of_nat k * 2 ^ s) \<le> 0" for k :: nat and s :: nat
    by (rule mult_nonpos_nonneg) simp
  thus ?thesis
    by (simp add: times_0_6_def double_times_def Let_def divide_nonpos_nonneg mult.assoc)
qed

lemma times_0_6_2000: "times_0_6 2000 = 1200"
  unfolding times_0_6_def double_times_def Let_def
  apply (simp add: bit_length.simps)
  apply (simp add: round_half_even_def Let_def)
  done

lemma times_1_4_2000: "times_1_4 2000 = 2800"
  unfolding times_1_4_def double_times_def Let_def
  apply (simp add: bit_length.simps)
  apply (simp add: round_half_even_def Let_def)
  done

lemma times_1_4_1400: "times_1_4 1400 = 8620171161763839 / 4398046511104"
  unfolding times_1_4_def double_times_def Let_def
  apply (simp add: bit_length.simps)
  apply (simp add: round_half_even_def Let_def)
  done

lemma times_0_6_1400: "times_0_6 1400 = 840"
  unfolding times_0_6_def double_times_def Let_def
  apply (simp add: bit_length.simps)
  apply (simp add: round_half_even_def Let_def)
  done

lemma thresholds_ordered:
  assumes "0 < d" "of_int d < times_0_6 target"
  shows "\<not> of_int d > times_1_4 target"
proof -
  have "0 < target"
  proof (rule ccontr)
    assume "\<not> 0 < target"
    hence "times_0_6 target \<le> 0" by (simp add: times_0_6_nonpos)
    with assms show False by simp
  qed
  hence "times_0_6 target \<le> of_int target" "of_int target \<le> times_1_4 target"
    by (simp_all add: times_0_6_le times_1_4_ge)
  with assms(2) show ?thesis by simp
qed

subsection \<open>The rule\<close>

text \<open>
  Claim C3, as amended. \<^verbatim>\<open>adjustBatchSize\<close> leaves the adaptive batch size as it is
  when the batch had no file or its duration was not positive. Otherwise it grows the
  size to \<open>min(maxBatchSize, max(1, round(p * 1.25)))\<close> when the duration is below the
  double-precision product \<^verbatim>\<open>target * 0.6\<close> and the size is below \<open>maxBatchSize\<close>,
  shrinks it to \<open>max(minBatchSize, max(1, round(p * 0.8)))\<close> when the duration is above
  the double-precision product \<^verbatim>\<open>target * 1.4\<close> and the size is above
  \<open>minBatchSize\<close>, and leaves it otherwise. For a positive duration, a batch with a
  file and a size \<open>p \<ge> 1\<close> between \<open>minBatchSize\<close> and \<open>maxBatchSize\<close> this is the rule
  of the specification with these two products as thresholds; at the default target
  of 2000 ms the products are exactly 1200 and 2800, and it is the rule as the
  specification words it.
\<close>

theorem adjustBatchSize_rule:
  "adaptiveBatchSize (adjustBatchSize opts d n st) =
     (if n = 0 \<or> d \<le> 0 then adaptiveBatchSize st
      else if of_int d < times_0_6 (targetBatchDurationMs (throttling opts))
              \<and> adaptiveBatchSize st < maxBatchSize (throttling opts)
        then min (maxBatchSize (throttling opts)) (max 1 (round_times_1_25 (adaptiveBatchSize st)))
      else if of_int d > times_1_4 (targetBatchDurationMs (throttling opts))
              \<and> adaptiveBatchSize st > minBatchSize (throttling opts)
        then max (minBatchSize (throttling opts)) (max 1 (round_times_0_8 (adaptiveBatchSize st)))
      else adaptiveBatchSize st)
   \<and> (0 < d \<and> n \<noteq> 0 \<and> 1 \<le> adaptiveBatchSize st
        \<and> minBatchSize (throttling opts) \<le> adaptiveBatchSize st
        \<and> adaptiveBatchSize st \<le> maxBatchSize (throttling opts)
      \<longrightarrow> adaptiveBatchSize (adjustBatchSize opts d n st)
            = (if of_int d < times_0_6 (targetBatchDurationMs (throttling opts))
                 then min (maxBatchSize (throttling opts)) (round_times_1_25 (adaptiveBatchSize st))
               else if of_int d > times_1_4 (targetBatchDurationMs (throttling opts))
                 then max (minBatchSize (throttling opts)) (round_times_0_8 (adaptiveBatchSize st))
               else adaptiveBatchSize st))
   \<and> (targetBatchDurationMs (throttling opts) = 2000
        \<and> 0 < d \<and> n \<noteq> 0 \<and> 1 \<le> adaptiveBatchSize st
        \<and> minBatchSize (throttling opts) \<le> adaptiveBatchSize st
        \<and> adaptiveBatchSize st \<le> maxBatchSize (throttling opts)
      \<longrightarrow> adaptiveBatchSize (adjustBatchSize opts d n st)
            = spec_next_batch_size (throttling opts) d (adaptiveBatchSize st))"
proof -
  define p where "p = adaptiveBatchSize st"
  define target where "target = targetBatchDurationMs (throttling opts)"
  have rule: "adaptiveBatchSize (adjustBatchSize opts d n st) =
     (if n = 0 \<or> d \<le> 0 then p
      else if of_int d < times_0_6 target \<and> p < maxBatchSize (throttling opts)
        then min (maxBatchSize (throttling opts)) (max 1 (round_times_1_25 p))
      else if of_int d > times_1_4 target \<and> p > minBatchSize (throttling opts)
        then max (minBatchSize (throttling opts)) (max 1 (round_times_0_8 p))
      else p)"
    by (simp add: adjustBatchSize_def Let_def p_def target_def)
  have in_range: "adaptiveBatchSize (adjustBatchSize opts d n st)
            = (if of_int d < times_0_6 target
                 then min (maxBatchSize (throttling opts)) (round_times_1_25 p)
               else if of_int d > times_1_4 target
                 then max (minBatchSize (throttling opts)) (round_times_0_8 p)
               else p)"
    if a: "0 < d \<and> n \<noteq> 0 \<and> 1 \<le> p \<and> minBatchSize (throttling opts) \<le> p
           \<and> p \<le> maxBatchSize (throttling opts)"
  proof -
    from a have up: "p \<le> round_times_1_25 p" and down: "round_times_0_8 p \<le> p"
      and down1: "1 \<le> round_times_0_8 p"
      by (simp_all add: round_times_1_25_ge round_times_0_8_le round_times_0_8_ge_1)
    show ?thesis
    proof (cases "of_int d < times_0_6 target")
      case True
      with a have "\<not> of_int d > times_1_4 target" by (simp add: thresholds_ordered)
      with True a up show ?thesis unfolding rule by auto
    next
      case False
      with a down down1 show ?thesis unfolding rule by auto
    qed
  qed
  have default_target: "adaptiveBatchSize (adjustBatchSize opts d n st)
            = spec_next_batch_size (throttling opts) d p"
    if a: "target = 2000 \<and> 0 < d \<and> n \<noteq> 0 \<and> 1 \<le> p \<and> minBatchSize (throttling opts) \<le> p
           \<and> p \<le> maxBatchSize (throttling opts)"
  proof -
    from a have t: "targetBatchDurationMs (throttling opts) = 2000" by (simp add: target_def)
    have lower: "(of_int d < (1200::rat)) = (d < 1200)"
      and upper: "((2800::rat) < of_int d) = (2800 < d)"
      by simp_all
    from a have "target = 2000" by simp
    with in_range a lower upper show ?thesis
      by (simp add: spec_next_batch_size_def t times_0_6_2000 times_1_4_2000)
  qed
  from rule in_range default_target show ?thesis
    unfolding p_def target_def by blast
qed

text \<open>
  The examples of the claim, on the defaults (target 2000 ms, size 50): a batch of
  1000 ms gives 63, one of 3200 ms gives 40, one of 2000 ms leaves 50.
\<close>

theorem adjustBatchSize_rule_witness:
  "adaptiveBatchSize (adjustBatchSize defaultOptions 1000 50 (initialState defaultOptions)) = 63
   \<and> adaptiveBatchSize (adjustBatchSize defaultOptions 3200 50 (initialState defaultOptions)) = 40
   \<and> adaptiveBatchSize (adjustBatchSize defaultOptions 2000 50 (initialState defaultOptions)) = 50
   \<and> spec_next_batch_size (throttling defaultOptions) 1000 50 = 63
   \<and> spec_next_batch_size (throttling defaultOptions) 3200 50 = 40
   \<and> times_0_6 (targetBatchDurationMs (throttling defaultOptions)) = 1200
   \<and> times_1_4 (targetBatchDurationMs (throttling defaultOptions)) = 2800"
  using adjustBatchSize_rule [of defaultOptions 1000 50 "initialState defaultOptions"]
    adjustBatchSize_rule [of defaultOptions 3200 50 "initialState defaultOptions"]
    adjustBatchSize_rule [of defaultOptions 2000 50 "initialState defaultOptions"]
  by (simp add: defaultOptions_def defaultThrottling_def initialState_def
      spec_next_batch_size_def round_times_1_25_def round_times_0_8_def
      times_0_6_2000 times_1_4_2000)

text \<open>
  Claim C3 as stated fails where a guard of the code applies: a batch measured at 0 ms
  leaves the size 50 where the claim gives 63; with \<^verbatim>\<open>batchSize: 1\<close> (the option of
  the scheduler's own tests, below the default \<open>minBatchSize\<close> of 10) a slow batch
  leaves the size 1 where the claim gives 10; with \<^verbatim>\<open>batchSize: 500\<close>, above the
  default \<open>maxBatchSize\<close> of 200, a fast batch leaves 500 where the claim gives 200.
  It also fails at a threshold that is not a double: with a target of 1400 ms the
  product \<^verbatim>\<open>1400 * 1.4\<close> is \<open>1959.9999999999998\<close>, so a batch of exactly 1960 ms, which
  is not above 1.4 of the target, shrinks the size 50 to 40 where the claim leaves 50.
\<close>

theorem adjustBatchSize_guards_counterexample:
  "adaptiveBatchSize (adjustBatchSize defaultOptions 0 50 (initialState defaultOptions)) = 50
   \<and> spec_next_batch_size (throttling defaultOptions) 0 50 = 63
   \<and> adaptiveBatchSize (adjustBatchSize (defaultOptions\<lparr>batchSize := 1\<rparr>) 3200 1
        (initialState (defaultOptions\<lparr>batchSize := 1\<rparr>))) = 1
   \<and> spec_next_batch_size (throttling (defaultOptions\<lparr>batchSize := 1\<rparr>)) 3200 1 = 10
   \<and> adaptiveBatchSize (adjustBatchSize (defaultOptions\<lparr>batchSize := 500\<rparr>) 1000 200
        (initialState (defaultOptions\<lparr>batchSize := 500\<rparr>))) = 500
   \<and> spec_next_batch_size (throttling (defaultOptions\<lparr>batchSize := 500\<rparr>)) 1000 500 = 200
   \<and> adaptiveBatchSize (adjustBatchSize slowTargetOptions 1960 50
        (initialState slowTargetOptions)) = 40
   \<and> spec_next_batch_size (throttling slowTargetOptions) 1960 50 = 50
   \<and> times_1_4 (targetBatchDurationMs (throttling slowTargetOptions))
       = 8620171161763839 / 4398046511104
   \<and> \<not> 10 * (1960::int) > 14 * targetBatchDurationMs (throttling slowTargetOptions)"
  by (simp add: adjustBatchSize_def defaultOptions_def defaultThrottling_def initialState_def
      spec_next_batch_size_def round_times_1_25_def round_times_0_8_def slowTargetOptions_def
      times_0_6_2000 times_1_4_2000 times_0_6_1400 times_1_4_1400)

section \<open>Queue events clear the pending expectations\<close>

lemma sync_writes_append [simp]: "sync_writes (xs @ ys) = sync_writes xs @ sync_writes ys"
  by (simp add: sync_writes_def)

lemma writeFinalStatus_pending [simp]:
  "pendingFileMetadata (writeFinalStatus env ctx i status pending st) = pendingFileMetadata st"
  by (simp add: writeFinalStatus_def record_call_def handleError_def Let_def split: option.splits)

lemma writeFinalStatus_sync_writes:
  "sync_writes (calls (writeFinalStatus env ctx i status pending st)) =
     sync_writes (calls st) @ [UpdateSyncStatus i status (pe_lastModified pending) (pe_hash pending)]"
  by (simp add: writeFinalStatus_def record_call_def handleError_def Let_def sync_writes_def
      split: option.splits)

lemma handleError_sync_writes [simp]:
  "sync_writes (calls (handleError e ctx p st)) = sync_writes (calls st)"
  by (simp add: handleError_def record_call_def sync_writes_def)

lemma handleError_pending [simp]:
  "pendingFileMetadata (handleError e ctx p st) = pendingFileMetadata st"
  by (simp add: handleError_def record_call_def)

text \<open>
  Claim C6. For a \<^verbatim>\<open>task-completed\<close> or \<^verbatim>\<open>task-failed\<close> event whose task id has
  a pending entry, the handler removes exactly that entry, and it adds one write of the
  sync file (status OK on completion, FAILED on failure, with the stored
  \<^verbatim>\<open>lastModified\<close> and \<^verbatim>\<open>hash\<close>) if no remote store is configured, and none if one
  is.
\<close>

theorem queue_event_clears_pending:
  assumes "pendingFileMetadata st (task_id task) = Some pending"
  shows "pendingFileMetadata (handleTaskCompleted env task st)
           = (pendingFileMetadata st)(task_id task := None)
    \<and> pendingFileMetadata (handleTaskFailed env task err st)
           = (pendingFileMetadata st)(task_id task := None)
    \<and> sync_writes (calls (handleTaskCompleted env task st))
         = sync_writes (calls st) @
           (if supabaseService env = None
            then [UpdateSyncStatus (task_id task) ''OK'' (pe_lastModified pending) (pe_hash pending)]
            else [])
    \<and> sync_writes (calls (handleTaskFailed env task err st))
         = sync_writes (calls st) @
           (if supabaseService env = None
            then [UpdateSyncStatus (task_id task) ''FAILED'' (pe_lastModified pending) (pe_hash pending)]
            else [])"
proof (intro conjI)
  show "pendingFileMetadata (handleTaskCompleted env task st)
           = (pendingFileMetadata st)(task_id task := None)"
    using assms by (simp add: handleTaskCompleted_def Let_def)
  show "pendingFileMetadata (handleTaskFailed env task err st)
           = (pendingFileMetadata st)(task_id task := None)"
    using assms by (cases err) (simp_all add: handleTaskFailed_def Let_def)
  show "sync_writes (calls (handleTaskCompleted env task st))
         = sync_writes (calls st) @
           (if supabaseService env = None
            then [UpdateSyncStatus (task_id task) ''OK'' (pe_lastModified pending) (pe_hash pending)]
            else [])"
    using assms by (simp add: handleTaskCompleted_def Let_def writeFinalStatus_sync_writes)
  show "sync_writes (calls (handleTaskFailed env task err st))
         = sync_writes (calls st) @
           (if supabaseService env = None
            then [UpdateSyncStatus (task_id task) ''FAILED'' (pe_lastModified pending) (pe_hash pending)]
            else [])"
    using assms
    by (cases err) (simp_all add: handleTaskFailed_def Let_def writeFinalStatus_sync_writes)
qed

lemma queue_event_without_pending:
  assumes "pendingFileMetadata st (task_id task) = None"
  shows "handleTaskCompleted env task st = st"
    and "pendingFileMetadata (handleTaskFailed env task err st) = pendingFileMetadata st"
    and "sync_writes (calls (handleTaskFailed env task err st)) = sync_writes (calls st)"
  using assms by (cases err; simp add: handleTaskCompleted_def handleTaskFailed_def)+

text \<open>
  The three tests of the scheduler's event handlers: the pending entry of \<^verbatim>\<open>Note.md\<close>
  with hash \<^verbatim>\<open>abc\<close>, offline (completion, failure) and with a remote store.
\<close>

theorem queue_event_clears_pending_witness:
  "pendingFileMetadata
      (handleTaskCompleted offlineCollaborators testTask
         ((initialState defaultOptions)\<lparr>pendingFileMetadata := [''Note.md'' \<mapsto> testPending]\<rparr>))
      ''Note.md'' = None
   \<and> sync_writes (calls
      (handleTaskCompleted offlineCollaborators testTask
         ((initialState defaultOptions)\<lparr>pendingFileMetadata := [''Note.md'' \<mapsto> testPending]\<rparr>)))
      = [UpdateSyncStatus ''Note.md'' ''OK'' 123 ''abc'']
   \<and> sync_writes (calls
      (handleTaskFailed offlineCollaborators testTask (ErrorObject ''queue failed'')
         ((initialState defaultOptions)\<lparr>pendingFileMetadata := [''Note.md'' \<mapsto> testPending]\<rparr>)))
      = [UpdateSyncStatus ''Note.md'' ''FAILED'' 123 ''abc'']
   \<and> sync_writes (calls
      (handleTaskCompleted (onlineCollaborators 0) testTask
         ((initialState defaultOptions)\<lparr>pendingFileMetadata := [''Note.md'' \<mapsto> testPending]\<rparr>)))
      = []
   \<and> pendingFileMetadata
      (handleTaskCompleted (onlineCollaborators 0) testTask
         ((initialState defaultOptions)\<lparr>pendingFileMetadata := [''Note.md'' \<mapsto> testPending]\<rparr>))
      ''Note.md'' = None"
  using queue_event_clears_pending [of
      "(initialState defaultOptions)\<lparr>pendingFileMetadata := [''Note.md'' \<mapsto> testPending]\<rparr>"
      testTask testPending offlineCollaborators "ErrorObject ''queue failed''"]
    queue_event_clears_pending [of
      "(initialState defaultOptions)\<lparr>pendingFileMetadata := [''Note.md'' \<mapsto> testPending]\<rparr>"
      testTask testPending "onlineCollaborators 0" "ErrorObject ''queue failed''"]
  by (simp add: initialState_def testTask_def testPending_def offlineCollaborators_def
      onlineCollaborators_def sync_writes_def)

section \<open>A failed file leaves no pending expectation\<close>

lemma record_call_fields [simp]:
  "batches (record_call c st) = batches st"
  "processedFiles (record_call c st) = processedFiles st"
  "totalFiles (record_call c st) = totalFiles st"
  "adaptiveBatchSize (record_call c st) = adaptiveBatchSize st"
  "pendingFileMetadata (record_call c st) = pendingFileMetadata st"
  "clockReads (record_call c st) = clockReads st"
  "calls (record_call c st) = calls st @ [c]"
  by (simp_all add: record_call_def)

lemma handleError_fields [simp]:
  "batches (handleError e ctx p st) = batches st"
  "processedFiles (handleError e ctx p st) = processedFiles st"
  "totalFiles (handleError e ctx p st) = totalFiles st"
  "adaptiveBatchSize (handleError e ctx p st) = adaptiveBatchSize st"
  "clockReads (handleError e ctx p st) = clockReads st"
  "calls (handleError e ctx p st) = calls st @ [HandleError e ctx p]"
  by (simp_all add: handleError_def)

lemma dateNow_fields:
  "dateNow env st = (t, st') \<Longrightarrow>
     batches st' = batches st \<and> processedFiles st' = processedFiles st
     \<and> totalFiles st' = totalFiles st \<and> adaptiveBatchSize st' = adaptiveBatchSize st
     \<and> pendingFileMetadata st' = pendingFileMetadata st \<and> calls st' = calls st
     \<and> clockReads st' = Suc (clockReads st) \<and> t = clock env (clockReads st)"
  by (auto simp: dateNow_def)

lemma calculateFileHash_frame:
  "calculateFileHash env file st = (h, st') \<Longrightarrow>
     same_counters st st' \<and> pendingFileMetadata st' = pendingFileMetadata st
     \<and> filter is_processFile_report (calls st') = filter is_processFile_report (calls st)"
  by (auto simp: calculateFileHash_def same_counters_def Let_def split: sum.splits)

lemma markPending_frame:
  "markPending env file md h st = (r, st') \<Longrightarrow>
     same_counters st st' \<and> pendingFileMetadata st' = pendingFileMetadata st
     \<and> filter is_processFile_report (calls st') = filter is_processFile_report (calls st)"
  by (auto simp: markPending_def same_counters_def split: option.splits)

lemma embeddingWarning_frame:
  "same_counters st (embeddingWarning env st)
     \<and> pendingFileMetadata (embeddingWarning env st) = pendingFileMetadata st
     \<and> filter is_processFile_report (calls (embeddingWarning env st))
         = filter is_processFile_report (calls st)"
  by (auto simp: embeddingWarning_def same_counters_def record_call_def)

lemma enqueueCreate_frame:
  "enqueueCreate env opts file md st = (st', r) \<Longrightarrow>
     same_counters st st' \<and> pendingFileMetadata st' = pendingFileMetadata st
     \<and> filter is_processFile_report (calls st') = filter is_processFile_report (calls st)"
  by (auto simp: enqueueCreate_def same_counters_def dateNow_def Let_def split: option.splits)

lemma same_counters_trans: "same_counters a b \<Longrightarrow> same_counters b c \<Longrightarrow> same_counters a c"
  by (simp add: same_counters_def)

lemma processFile_try_frame:
  assumes "processFile_try env opts file st = (st', r)"
  shows "same_counters st st'"
    and "\<And>p. p \<noteq> file_path file \<Longrightarrow> pendingFileMetadata st' p = pendingFileMetadata st p"
    and "filter is_processFile_report (calls st') = filter is_processFile_report (calls st)"
proof -
  have "same_counters st st'
    \<and> (\<forall>p. p \<noteq> file_path file \<longrightarrow> pendingFileMetadata st' p = pendingFileMetadata st p)
    \<and> filter is_processFile_report (calls st') = filter is_processFile_report (calls st)"
  proof (cases "isSyncFile opts (file_path file)")
    case True
    with assms show ?thesis by (simp add: processFile_try_def same_counters_def)
  next
    case False
    show ?thesis
    proof (cases "extractMetadata env (calls st) file")
      case (Inl e)
      with assms False show ?thesis
        by (auto simp: processFile_try_def same_counters_def)
    next
      case (Inr md0)
      obtain h st2 where h: "calculateFileHash env file (record_call (ExtractMetadata file) st) = (h, st2)"
        by (cases "calculateFileHash env file (record_call (ExtractMetadata file) st)")
      define md where "md = md0\<lparr>customMetadata := AList.update ''contentHash'' h (customMetadata md0)\<rparr>"
      define st3 where "st3 = st2\<lparr>pendingFileMetadata := (pendingFileMetadata st2)
                              (file_path file \<mapsto>
                                 \<lparr>pe_metadata = md, pe_hash = h,
                                  pe_lastModified = file_mtime file\<rparr>)\<rparr>"
      obtain rej st4 where m: "markPending env file md h st3 = (rej, st4)"
        by (cases "markPending env file md h st3")
      from calculateFileHash_frame [OF h]
      have f2: "same_counters st st2" "pendingFileMetadata st2 = pendingFileMetadata st"
        "filter is_processFile_report (calls st2) = filter is_processFile_report (calls st)"
        by (simp_all add: same_counters_def)
      then have f3: "same_counters st st3"
        "\<forall>p. p \<noteq> file_path file \<longrightarrow> pendingFileMetadata st3 p = pendingFileMetadata st p"
        "filter is_processFile_report (calls st3) = filter is_processFile_report (calls st)"
        by (simp_all add: st3_def same_counters_def)
      from markPending_frame [OF m] f3
      have f4: "same_counters st st4"
        "\<forall>p. p \<noteq> file_path file \<longrightarrow> pendingFileMetadata st4 p = pendingFileMetadata st p"
        "filter is_processFile_report (calls st4) = filter is_processFile_report (calls st)"
        by (simp_all add: same_counters_def)
      show ?thesis
      proof (cases rej)
        case (Some e)
        with assms False Inr h m f4 show ?thesis
          by (simp add: processFile_try_def md_def st3_def)
      next
        case None
        with assms False Inr h m
        have "enqueueCreate env opts file md (embeddingWarning env st4) = (st', r)"
          by (simp add: processFile_try_def md_def st3_def)
        from enqueueCreate_frame [OF this] embeddingWarning_frame [of st4 env] f4
        show ?thesis by (simp add: same_counters_def)
      qed
    qed
  qed
  then show "same_counters st st'"
    and "\<And>p. p \<noteq> file_path file \<Longrightarrow> pendingFileMetadata st' p = pendingFileMetadata st p"
    and "filter is_processFile_report (calls st') = filter is_processFile_report (calls st)"
    by blast+
qed

lemma processFile_Inl:
  assumes "processFile env opts file st = (st', Inl e)"
  obtains st1 where "processFile_try env opts file st = (st1, Inl e)"
    and "st' = handleError e ''InitialSyncManager.processFile'' (file_path file)
                 (st1\<lparr>pendingFileMetadata := (pendingFileMetadata st1)(file_path file := None)\<rparr>)"
  using assms by (auto simp: processFile_def split: prod.splits sum.splits)

lemma processFile_Inr:
  assumes "processFile env opts file st = (st', Inr u)"
  shows "processFile_try env opts file st = (st', Inr u)"
  using assms by (auto simp: processFile_def split: prod.splits sum.splits)

text \<open>
  Claim C10. Whenever \<^verbatim>\<open>processFile\<close> throws for a file, the state it leaves has no
  pending entry for the path of that file, the entries of all other paths are as before
  the call, and the last call made is the report of the error. A later
  \<^verbatim>\<open>task-completed\<close> or \<^verbatim>\<open>task-failed\<close> event for that path then finds no entry:
  it changes no entry and writes no sync status.
\<close>

theorem processFile_failure_clears_pending:
  assumes "processFile env opts file st = (st', Inl e)"
  shows "pendingFileMetadata st' (file_path file) = None
    \<and> (\<forall>p. p \<noteq> file_path file \<longrightarrow> pendingFileMetadata st' p = pendingFileMetadata st p)
    \<and> (\<exists>cs. calls st' = cs @ [HandleError e ''InitialSyncManager.processFile'' (file_path file)])
    \<and> (\<forall>task. task_id task = file_path file \<longrightarrow>
          handleTaskCompleted env' task st' = st'
          \<and> pendingFileMetadata (handleTaskFailed env' task err st') = pendingFileMetadata st'
          \<and> sync_writes (calls (handleTaskFailed env' task err st')) = sync_writes (calls st'))"
proof -
  from assms obtain st1 where body: "processFile_try env opts file st = (st1, Inl e)"
    and st': "st' = handleError e ''InitialSyncManager.processFile'' (file_path file)
                 (st1\<lparr>pendingFileMetadata := (pendingFileMetadata st1)(file_path file := None)\<rparr>)"
    by (rule processFile_Inl)
  have none: "pendingFileMetadata st' (file_path file) = None"
    by (simp add: st')
  moreover have "\<forall>p. p \<noteq> file_path file \<longrightarrow> pendingFileMetadata st' p = pendingFileMetadata st p"
    using processFile_try_frame(2) [OF body] by (simp add: st')
  moreover have "\<exists>cs. calls st' = cs @ [HandleError e ''InitialSyncManager.processFile'' (file_path file)]"
    by (simp add: st')
  moreover have "\<forall>task. task_id task = file_path file \<longrightarrow>
          handleTaskCompleted env' task st' = st'
          \<and> pendingFileMetadata (handleTaskFailed env' task err st') = pendingFileMetadata st'
          \<and> sync_writes (calls (handleTaskFailed env' task err st')) = sync_writes (calls st')"
    using none by (auto simp: queue_event_without_pending)
  ultimately show ?thesis by blast
qed

lemma rejected_file:
  "snd (processFile (rejectingQueue ''B.md'') defaultOptions (testFile ''B.md'')
          (initialState defaultOptions)) = Inl (ErrorObject ''QUEUE_FULL'')"
  by (simp add: testFile_def testMetadata_def offlineCollaborators_def rejectingQueue_def
      defaultOptions_def defaultThrottling_def initialState_def
      processFile_def processFile_try_def isSyncFile_def effectiveSyncFilePath_def
      calculateFileHash_def markPending_def embeddingWarning_def enqueueCreate_def dateNow_def
      record_call_def handleError_def getFilePriority_def Let_def)

lemma rejected_file_was_pending:
  "pendingFileMetadata (fst (processFile_try (rejectingQueue ''B.md'') defaultOptions
      (testFile ''B.md'') (initialState defaultOptions))) ''B.md'' \<noteq> None"
  by (simp add: testFile_def testMetadata_def offlineCollaborators_def rejectingQueue_def
      defaultOptions_def defaultThrottling_def initialState_def
      processFile_try_def isSyncFile_def effectiveSyncFilePath_def
      calculateFileHash_def markPending_def embeddingWarning_def enqueueCreate_def dateNow_def
      record_call_def handleError_def getFilePriority_def Let_def)

text \<open>
  The theorem where the queue rejects the task of \<^verbatim>\<open>B.md\<close>: \<^verbatim>\<open>processFile\<close> throws
  the rejection, the \<^verbatim>\<open>try\<close> block had recorded the pending entry, and the state
  returned has none.
\<close>

theorem processFile_failure_clears_pending_witness:
  "snd (processFile (rejectingQueue ''B.md'') defaultOptions (testFile ''B.md'')
          (initialState defaultOptions)) = Inl (ErrorObject ''QUEUE_FULL'')
   \<and> pendingFileMetadata (fst (processFile_try (rejectingQueue ''B.md'') defaultOptions
          (testFile ''B.md'') (initialState defaultOptions))) ''B.md'' \<noteq> None
   \<and> pendingFileMetadata (fst (processFile (rejectingQueue ''B.md'') defaultOptions
          (testFile ''B.md'') (initialState defaultOptions))) ''B.md'' = None"
proof -
  have thrown: "processFile (rejectingQueue ''B.md'') defaultOptions (testFile ''B.md'')
          (initialState defaultOptions)
        = (fst (processFile (rejectingQueue ''B.md'') defaultOptions (testFile ''B.md'')
                  (initialState defaultOptions)), Inl (ErrorObject ''QUEUE_FULL''))"
    by (simp add: prod_eq_iff rejected_file)
  from processFile_failure_clears_pending [OF thrown]
  have "pendingFileMetadata (fst (processFile (rejectingQueue ''B.md'') defaultOptions
          (testFile ''B.md'') (initialState defaultOptions))) (file_path (testFile ''B.md'')) = None"
    by (rule conjunct1)
  then show ?thesis
    using rejected_file rejected_file_was_pending by (simp add: testFile_def)
qed

section \<open>A batch survives the failure of its files\<close>

lemma processFile_account:
  assumes "processFile env opts file st = (st', r)"
  shows "same_counters st st'"
    and "processFile_reports st' = processFile_reports st + (case r of Inl e \<Rightarrow> 1 | Inr u \<Rightarrow> 0)"
proof -
  show "same_counters st st'"
  proof (cases r)
    case (Inl e)
    with assms obtain st1 where "processFile_try env opts file st = (st1, Inl e)"
      and "st' = handleError e ''InitialSyncManager.processFile'' (file_path file)
                 (st1\<lparr>pendingFileMetadata := (pendingFileMetadata st1)(file_path file := None)\<rparr>)"
      by (auto elim: processFile_Inl)
    with processFile_try_frame(1) [of env opts "file" st st1 "Inl e"] show ?thesis
      by (simp add: same_counters_def)
  next
    case (Inr u)
    with assms processFile_try_frame(1) [of env opts "file" st st' "Inr u"] show ?thesis
      by (simp add: processFile_Inr)
  qed
  show "processFile_reports st' = processFile_reports st + (case r of Inl e \<Rightarrow> 1 | Inr u \<Rightarrow> 0)"
  proof (cases r)
    case (Inl e)
    with assms obtain st1 where "processFile_try env opts file st = (st1, Inl e)"
      and "st' = handleError e ''InitialSyncManager.processFile'' (file_path file)
                 (st1\<lparr>pendingFileMetadata := (pendingFileMetadata st1)(file_path file := None)\<rparr>)"
      by (auto elim: processFile_Inl)
    with processFile_try_frame(3) [of env opts "file" st st1 "Inl e"] Inl show ?thesis
      by (simp add: processFile_reports_def)
  next
    case (Inr u)
    with assms processFile_try_frame(3) [of env opts "file" st st' "Inr u"] show ?thesis
      by (simp add: processFile_Inr processFile_reports_def)
  qed
qed

lemma updateProgressNotification_frame:
  "same_counters st (updateProgressNotification st)
   \<and> processFile_reports (updateProgressNotification st) = processFile_reports st
   \<and> clockReads (updateProgressNotification st) = clockReads st"
  by (simp add: updateProgressNotification_def same_counters_def processFile_reports_def)

lemma processBatchFile_result: "snd (processBatchFile env opts file sb) = Inr ()"
  by (simp add: processBatchFile_def Let_def split: prod.splits sum.splits)

lemma processBatchFile_failure:
  "processFile env opts file st = (st1, Inl e) \<Longrightarrow>
     processBatchFile env opts file (st, b)
       = ((handleError e ''InitialSyncManager.processFile'' (file_path file) st1, b), Inr ())"
  by (simp add: processBatchFile_def)

lemma processBatchFile_account:
  assumes "processBatchFile env opts file (st, b) = ((st', b'), r)"
  shows "progress_account st' = progress_account st + 2"
    and "batches st' = batches st" and "totalFiles st' = totalFiles st"
    and "adaptiveBatchSize st' = adaptiveBatchSize st"
    and "batch_files b' = batch_files b" and "batch_id b' = batch_id b"
    and "batch_status b' = batch_status b" and "batch_startTime b' = batch_startTime b"
proof -
  obtain st1 r1 where p: "processFile env opts file st = (st1, r1)"
    by (cases "processFile env opts file st")
  note acc = processFile_account [OF p]
  have "progress_account st' = progress_account st + 2 \<and> batches st' = batches st
      \<and> totalFiles st' = totalFiles st \<and> adaptiveBatchSize st' = adaptiveBatchSize st
      \<and> batch_files b' = batch_files b \<and> batch_id b' = batch_id b
      \<and> batch_status b' = batch_status b \<and> batch_startTime b' = batch_startTime b"
  proof (cases r1)
    case (Inl e)
    with assms p acc show ?thesis
      by (auto simp: processBatchFile_def progress_account_def same_counters_def
          processFile_reports_def)
  next
    case (Inr u)
    define st2 where "st2 = st1\<lparr>processedFiles := processedFiles st1 + 1\<rparr>"
    from Inr assms p have st': "st' = updateProgressNotification st2"
      and b': "b' = b\<lparr>batch_progress := progressPercent st2\<rparr>"
      by (simp_all add: processBatchFile_def Let_def st2_def)
    have "same_counters st2 st'" "processFile_reports st' = processFile_reports st2"
      using updateProgressNotification_frame [of st2] by (simp_all add: st')
    moreover have "processFile_reports st2 = processFile_reports st1"
      "processedFiles st2 = processedFiles st1 + 1" "batches st2 = batches st1"
      "totalFiles st2 = totalFiles st1" "adaptiveBatchSize st2 = adaptiveBatchSize st1"
      by (simp_all add: st2_def processFile_reports_def)
    ultimately show ?thesis
      using acc Inr b' by (simp add: progress_account_def same_counters_def)
  qed
  then show "progress_account st' = progress_account st + 2"
    and "batches st' = batches st" and "totalFiles st' = totalFiles st"
    and "adaptiveBatchSize st' = adaptiveBatchSize st"
    and "batch_files b' = batch_files b" and "batch_id b' = batch_id b"
    and "batch_status b' = batch_status b" and "batch_startTime b' = batch_startTime b"
    by blast+
qed

lemma processBatchFiles_Cons:
  "processBatchFiles env opts (file # files) sb
     = processBatchFiles env opts files (fst (processBatchFile env opts file sb))"
  using processBatchFile_result [of env opts "file" sb]
  by (cases "processBatchFile env opts file sb") (auto split: sum.splits)

lemma processBatchFiles_result: "snd (processBatchFiles env opts files sb) = Inr ()"
  by (induction files arbitrary: sb) (simp_all add: processBatchFiles_Cons del: processBatchFiles.simps(2))

lemma processBatchFiles_append:
  "processBatchFiles env opts (xs @ ys) sb
     = processBatchFiles env opts ys (fst (processBatchFiles env opts xs sb))"
  by (induction xs arbitrary: sb) (simp_all add: processBatchFiles_Cons del: processBatchFiles.simps(2))

lemma processBatchFiles_account:
  assumes "processBatchFiles env opts files (st, b) = ((st', b'), r)"
  shows "progress_account st' = progress_account st + 2 * int (length files)
    \<and> batches st' = batches st \<and> totalFiles st' = totalFiles st
    \<and> adaptiveBatchSize st' = adaptiveBatchSize st
    \<and> batch_files b' = batch_files b \<and> batch_id b' = batch_id b
    \<and> batch_status b' = batch_status b \<and> batch_startTime b' = batch_startTime b"
  using assms
proof (induction files arbitrary: st b)
  case Nil
  then show ?case by simp
next
  case (Cons f files)
  obtain st1 b1 r1 where one: "processBatchFile env opts f (st, b) = ((st1, b1), r1)"
    by (cases "processBatchFile env opts f (st, b)") auto
  with Cons.prems have "processBatchFiles env opts files (st1, b1) = ((st', b'), r)"
    by (simp add: processBatchFiles_Cons del: processBatchFiles.simps(2))
  from Cons.IH [OF this] processBatchFile_account [OF one] show ?case
    by simp
qed

lemma processBatch_completes:
  obtains st' b' where
    "processBatch env opts batch st
       = ((st', b'), Inr (clock env (clockReads st' - 1) - clock env (clockReads st)))"
    "batch_status b' = BatchCompleted" "batch_files b' = batch_files batch"
    "batch_id b' = batch_id batch"
    "progress_account st' = progress_account st + 2 * int (length (batch_files batch))"
    "batches st' = batches st" "totalFiles st' = totalFiles st"
    "adaptiveBatchSize st' = adaptiveBatchSize st"
    "batch_startTime b' = Some (clock env (clockReads st))"
    "batch_endTime b' = Some (clock env (clockReads st' - 1))"
proof -
  define st1 where "st1 = st\<lparr>clockReads := Suc (clockReads st)\<rparr>"
  define b1 where "b1 = batch\<lparr>batch_status := BatchProcessing,
                                batch_startTime := Some (clock env (clockReads st))\<rparr>"
  obtain st2 b2 r where run: "processBatchFiles env opts (batch_files b1) (st1, b1) = ((st2, b2), r)"
    by (cases "processBatchFiles env opts (batch_files b1) (st1, b1)") auto
  with processBatchFiles_result [of env opts "batch_files b1" "(st1, b1)"] have r: "r = Inr ()"
    by simp
  note acc = processBatchFiles_account [OF run]
  define st3 where "st3 = st2\<lparr>clockReads := Suc (clockReads st2)\<rparr>"
  define b3 where "b3 = b2\<lparr>batch_status := BatchCompleted,
                             batch_endTime := Some (clock env (clockReads st2))\<rparr>"
  have "processBatch env opts batch st
          = ((st3, b3), Inr (clock env (clockReads st2) - clock env (clockReads st)))"
    using run r
    by (simp add: processBatch_def dateNow_def Let_def st1_def b1_def st3_def b3_def)
  moreover have "clockReads st3 - 1 = clockReads st2"
    by (simp add: st3_def)
  moreover have "progress_account st1 = progress_account st" "batches st1 = batches st"
    "totalFiles st1 = totalFiles st" "adaptiveBatchSize st1 = adaptiveBatchSize st"
    "progress_account st3 = progress_account st2" "batches st3 = batches st2"
    "totalFiles st3 = totalFiles st2" "adaptiveBatchSize st3 = adaptiveBatchSize st2"
    by (simp_all add: st1_def st3_def progress_account_def processFile_reports_def)
  moreover have "batch_files b1 = batch_files batch" "batch_id b1 = batch_id batch"
    "batch_files b3 = batch_files b2" "batch_id b3 = batch_id b2" "batch_status b3 = BatchCompleted"
    "batch_startTime b1 = Some (clock env (clockReads st))"
    "batch_startTime b3 = batch_startTime b2"
    "batch_endTime b3 = Some (clock env (clockReads st2))"
    by (simp_all add: b1_def b3_def)
  ultimately show ?thesis
    using acc that [of st3 b3] by simp
qed

lemma processBatchFile_success:
  "processFile env opts file st = (st1, Inr ()) \<Longrightarrow>
     processBatchFile env opts file (st, b)
       = ((updateProgressNotification (st1\<lparr>processedFiles := processedFiles st1 + 1\<rparr>),
           b\<lparr>batch_progress := progressPercent (st1\<lparr>processedFiles := processedFiles st1 + 1\<rparr>)\<rparr>),
          Inr ())"
  by (simp add: processBatchFile_def Let_def)

lemma processBatchFiles_fold:
  "processBatchFiles env opts files sb
     = (foldl (\<lambda>acc f. fst (processBatchFile env opts f acc)) sb files, Inr ())"
  by (induction files arbitrary: sb)
    (simp_all add: processBatchFiles_Cons del: processBatchFiles.simps(2))

lemma processBatch_runs_loop:
  "\<exists>st2 b2.
     processBatchFiles env opts (batch_files batch)
         (st\<lparr>clockReads := Suc (clockReads st)\<rparr>,
          batch\<lparr>batch_status := BatchProcessing,
                batch_startTime := Some (clock env (clockReads st))\<rparr>)
       = ((st2, b2), Inr ())
   \<and> processBatch env opts batch st
       = ((st2\<lparr>clockReads := Suc (clockReads st2)\<rparr>,
           b2\<lparr>batch_status := BatchCompleted,
              batch_endTime := Some (clock env (clockReads st2))\<rparr>),
          Inr (clock env (clockReads st2) - clock env (clockReads st)))"
proof -
  define st1 where "st1 = st\<lparr>clockReads := Suc (clockReads st)\<rparr>"
  define b1 where "b1 = batch\<lparr>batch_status := BatchProcessing,
                                batch_startTime := Some (clock env (clockReads st))\<rparr>"
  have files: "batch_files b1 = batch_files batch" by (simp add: b1_def)
  obtain st2 b2 r where run: "processBatchFiles env opts (batch_files b1) (st1, b1) = ((st2, b2), r)"
    by (cases "processBatchFiles env opts (batch_files b1) (st1, b1)") auto
  with processBatchFiles_result [of env opts "batch_files b1" "(st1, b1)"] have r: "r = Inr ()"
    by simp
  have "processBatch env opts batch st
          = ((st2\<lparr>clockReads := Suc (clockReads st2)\<rparr>,
              b2\<lparr>batch_status := BatchCompleted,
                 batch_endTime := Some (clock env (clockReads st2))\<rparr>),
             Inr (clock env (clockReads st2) - clock env (clockReads st)))"
    using run r by (simp add: processBatch_def dateNow_def Let_def st1_def b1_def)
  with run r files show ?thesis
    unfolding st1_def b1_def by auto
qed

text \<open>
  Claim C7. \<^verbatim>\<open>processBatch\<close> never throws: for every batch and all collaborators it
  returns the duration between its two clock readings and leaves the batch completed.
  Every file of the batch is either counted as processed or reported to the error
  handler. When \<^verbatim>\<open>processFile\<close> throws for a file, the loop reports the error and goes
  on with the remaining files of the batch.

  The state and the batch that \<^verbatim>\<open>processBatch\<close> returns are those of its loop over the
  files of the batch, started after the first clock reading on the batch marked as
  processing, and followed by the second clock reading. The loop takes the files in
  order, one turn each. A turn on a file for which \<^verbatim>\<open>processFile\<close> throws ends with
  the error reported to the error handler, under the context
  \<^verbatim>\<open>InitialSyncManager.processFile\<close> and the path of the file, and nothing else changed;
  a turn on a file for which it returns counts the file as processed, sets the progress
  of the batch and schedules the progress notification.
\<close>

theorem processBatch_survives_file_failures:
  "(\<exists>st' b'. processBatch env opts batch st
        = ((st', b'), Inr (clock env (clockReads st' - 1) - clock env (clockReads st)))
      \<and> batch_status b' = BatchCompleted \<and> batch_files b' = batch_files batch
      \<and> batch_startTime b' = Some (clock env (clockReads st))
      \<and> batch_endTime b' = Some (clock env (clockReads st' - 1))
      \<and> 2 * processedFiles st' + int (processFile_reports st')
          = 2 * processedFiles st + int (processFile_reports st)
            + 2 * int (length (batch_files batch)))
   \<and> (processFile env opts file s = (s1, Inl e) \<longrightarrow>
        processBatchFiles env opts (file # files) (s, b)
          = processBatchFiles env opts files
              (handleError e ''InitialSyncManager.processFile'' (file_path file) s1, b))
   \<and> snd (processBatchFiles env opts files sb) = Inr ()
   \<and> (\<exists>st2 b2.
         processBatchFiles env opts (batch_files batch)
             (st\<lparr>clockReads := Suc (clockReads st)\<rparr>,
              batch\<lparr>batch_status := BatchProcessing,
                    batch_startTime := Some (clock env (clockReads st))\<rparr>)
           = ((st2, b2), Inr ())
       \<and> processBatch env opts batch st
           = ((st2\<lparr>clockReads := Suc (clockReads st2)\<rparr>,
               b2\<lparr>batch_status := BatchCompleted,
                  batch_endTime := Some (clock env (clockReads st2))\<rparr>),
              Inr (clock env (clockReads st2) - clock env (clockReads st))))
   \<and> processBatchFiles env opts files sb
       = (foldl (\<lambda>acc f. fst (processBatchFile env opts f acc)) sb files, Inr ())
   \<and> (processFile env opts file s = (s1, Inl e) \<longrightarrow>
        processBatchFile env opts file (s, b)
          = ((s1\<lparr>calls := calls s1
                  @ [HandleError e ''InitialSyncManager.processFile'' (file_path file)]\<rparr>, b),
             Inr ()))
   \<and> (processFile env opts file s = (s1, Inr ()) \<longrightarrow>
        processBatchFile env opts file (s, b)
          = ((updateProgressNotification (s1\<lparr>processedFiles := processedFiles s1 + 1\<rparr>),
              b\<lparr>batch_progress := progressPercent (s1\<lparr>processedFiles := processedFiles s1 + 1\<rparr>)\<rparr>),
             Inr ()))"
proof (intro conjI impI)
  obtain st' b' where
    "processBatch env opts batch st
       = ((st', b'), Inr (clock env (clockReads st' - 1) - clock env (clockReads st)))"
    "batch_status b' = BatchCompleted" "batch_files b' = batch_files batch"
    "progress_account st' = progress_account st + 2 * int (length (batch_files batch))"
    "batch_startTime b' = Some (clock env (clockReads st))"
    "batch_endTime b' = Some (clock env (clockReads st' - 1))"
    by (rule processBatch_completes)
  then show "\<exists>st' b'. processBatch env opts batch st
        = ((st', b'), Inr (clock env (clockReads st' - 1) - clock env (clockReads st)))
      \<and> batch_status b' = BatchCompleted \<and> batch_files b' = batch_files batch
      \<and> batch_startTime b' = Some (clock env (clockReads st))
      \<and> batch_endTime b' = Some (clock env (clockReads st' - 1))
      \<and> 2 * processedFiles st' + int (processFile_reports st')
          = 2 * processedFiles st + int (processFile_reports st)
            + 2 * int (length (batch_files batch))"
    unfolding progress_account_def by blast
next
  assume "processFile env opts file s = (s1, Inl e)"
  then show "processBatchFiles env opts (file # files) (s, b)
          = processBatchFiles env opts files
              (handleError e ''InitialSyncManager.processFile'' (file_path file) s1, b)"
    by (simp add: processBatchFiles_Cons processBatchFile_failure del: processBatchFiles.simps(2))
next
  show "snd (processBatchFiles env opts files sb) = Inr ()"
    by (rule processBatchFiles_result)
next
  show "\<exists>st2 b2.
         processBatchFiles env opts (batch_files batch)
             (st\<lparr>clockReads := Suc (clockReads st)\<rparr>,
              batch\<lparr>batch_status := BatchProcessing,
                    batch_startTime := Some (clock env (clockReads st))\<rparr>)
           = ((st2, b2), Inr ())
       \<and> processBatch env opts batch st
           = ((st2\<lparr>clockReads := Suc (clockReads st2)\<rparr>,
               b2\<lparr>batch_status := BatchCompleted,
                  batch_endTime := Some (clock env (clockReads st2))\<rparr>),
              Inr (clock env (clockReads st2) - clock env (clockReads st)))"
    by (rule processBatch_runs_loop)
next
  show "processBatchFiles env opts files sb
       = (foldl (\<lambda>acc f. fst (processBatchFile env opts f acc)) sb files, Inr ())"
    by (rule processBatchFiles_fold)
next
  assume "processFile env opts file s = (s1, Inl e)"
  then show "processBatchFile env opts file (s, b)
          = ((s1\<lparr>calls := calls s1
                  @ [HandleError e ''InitialSyncManager.processFile'' (file_path file)]\<rparr>, b),
             Inr ())"
    by (simp add: processBatchFile_failure handleError_def record_call_def)
next
  assume "processFile env opts file s = (s1, Inr ())"
  then show "processBatchFile env opts file (s, b)
          = ((updateProgressNotification (s1\<lparr>processedFiles := processedFiles s1 + 1\<rparr>),
              b\<lparr>batch_progress := progressPercent (s1\<lparr>processedFiles := processedFiles s1 + 1\<rparr>)\<rparr>),
             Inr ())"
    by (rule processBatchFile_success)
qed

text \<open>
  The theorem on the batch \<^verbatim>\<open>B.md\<close>, \<^verbatim>\<open>A.md\<close> where the queue rejects the task of
  \<^verbatim>\<open>B.md\<close>: the turn of \<^verbatim>\<open>B.md\<close> ends with the rejection reported, the loop goes on
  with \<^verbatim>\<open>A.md\<close>, and the batch completes with the state of the loop over both files.
\<close>

theorem processBatch_survives_file_failures_witness:
  "snd (processFile (rejectingQueue ''B.md'') defaultOptions (testFile ''B.md'')
          (initialState defaultOptions)) = Inl (ErrorObject ''QUEUE_FULL'')
   \<and> processBatchFiles (rejectingQueue ''B.md'') defaultOptions
        [testFile ''B.md'', testFile ''A.md''] (initialState defaultOptions, testBatch)
      = processBatchFiles (rejectingQueue ''B.md'') defaultOptions [testFile ''A.md'']
          (handleError (ErrorObject ''QUEUE_FULL'') ''InitialSyncManager.processFile'' ''B.md''
             (fst (processFile (rejectingQueue ''B.md'') defaultOptions (testFile ''B.md'')
                     (initialState defaultOptions))),
           testBatch)
   \<and> (\<exists>st' b' d. processBatch (rejectingQueue ''B.md'') defaultOptions testBatch
                      (initialState defaultOptions) = ((st', b'), Inr d)
          \<and> batch_status b' = BatchCompleted)
   \<and> calls (fst (fst (processBatchFile (rejectingQueue ''B.md'') defaultOptions (testFile ''B.md'')
                        (initialState defaultOptions, testBatch))))
      = calls (fst (processFile (rejectingQueue ''B.md'') defaultOptions (testFile ''B.md'')
                     (initialState defaultOptions)))
        @ [HandleError (ErrorObject ''QUEUE_FULL'') ''InitialSyncManager.processFile'' ''B.md'']
   \<and> (\<exists>st2 b2.
         fst (processBatchFile (rejectingQueue ''B.md'') defaultOptions (testFile ''A.md'')
               (fst (processBatchFile (rejectingQueue ''B.md'') defaultOptions (testFile ''B.md'')
                      ((initialState defaultOptions)\<lparr>clockReads := 1\<rparr>,
                       testBatch\<lparr>batch_status := BatchProcessing,
                                 batch_startTime := Some 0\<rparr>)))) = (st2, b2)
       \<and> fst (processBatch (rejectingQueue ''B.md'') defaultOptions testBatch
                (initialState defaultOptions))
           = (st2\<lparr>clockReads := Suc (clockReads st2)\<rparr>,
              b2\<lparr>batch_status := BatchCompleted,
                 batch_endTime := Some (1000 * int (clockReads st2))\<rparr>))"
proof -
  let ?env = "rejectingQueue ''B.md''" and ?st = "initialState defaultOptions"
  have thrown: "processFile ?env defaultOptions (testFile ''B.md'') ?st
        = (fst (processFile ?env defaultOptions (testFile ''B.md'') ?st),
           Inl (ErrorObject ''QUEUE_FULL''))"
    by (simp add: prod_eq_iff rejected_file)
  note inst = processBatch_survives_file_failures [of ?env defaultOptions
      testBatch ?st "testFile ''B.md''" ?st
      "fst (processFile ?env defaultOptions (testFile ''B.md'') ?st)"
      "ErrorObject ''QUEUE_FULL''" "[testFile ''A.md'']" testBatch
      "(?st\<lparr>clockReads := Suc (clockReads ?st)\<rparr>,
        testBatch\<lparr>batch_status := BatchProcessing,
                  batch_startTime := Some (clock ?env (clockReads ?st))\<rparr>)"]
  from inst [THEN conjunct2, THEN conjunct1, THEN mp, OF thrown]
  have continues: "processBatchFiles ?env defaultOptions
        [testFile ''B.md'', testFile ''A.md''] (?st, testBatch)
      = processBatchFiles ?env defaultOptions [testFile ''A.md'']
          (handleError (ErrorObject ''QUEUE_FULL'') ''InitialSyncManager.processFile''
             (file_path (testFile ''B.md''))
             (fst (processFile ?env defaultOptions (testFile ''B.md'') ?st)),
           testBatch)" .
  have path: "file_path (testFile ''B.md'') = ''B.md''"
    by (simp add: testFile_def)
  from inst [THEN conjunct1]
  have completes: "\<exists>st' b' d. processBatch ?env defaultOptions testBatch ?st = ((st', b'), Inr d)
          \<and> batch_status b' = BatchCompleted"
    by blast
  from inst [THEN conjunct2, THEN conjunct2, THEN conjunct2, THEN conjunct2, THEN conjunct2,
      THEN conjunct1, THEN mp, OF thrown]
  have reported: "calls (fst (fst (processBatchFile ?env defaultOptions (testFile ''B.md'')
                        (?st, testBatch))))
      = calls (fst (processFile ?env defaultOptions (testFile ''B.md'') ?st))
        @ [HandleError (ErrorObject ''QUEUE_FULL'') ''InitialSyncManager.processFile'' ''B.md'']"
    by (simp add: path)
  have start: "clockReads ?st = 0" "batch_files testBatch = [testFile ''B.md'', testFile ''A.md'']"
    by (simp_all add: initialState_def rejectingQueue_def offlineCollaborators_def testBatch_def)
  from inst [THEN conjunct2, THEN conjunct2, THEN conjunct2, THEN conjunct1]
  obtain st2 b2 where
    loop: "processBatchFiles ?env defaultOptions (batch_files testBatch)
             (?st\<lparr>clockReads := Suc (clockReads ?st)\<rparr>,
              testBatch\<lparr>batch_status := BatchProcessing,
                    batch_startTime := Some (clock ?env (clockReads ?st))\<rparr>) = ((st2, b2), Inr ())"
    and result: "processBatch ?env defaultOptions testBatch ?st
           = ((st2\<lparr>clockReads := Suc (clockReads st2)\<rparr>,
               b2\<lparr>batch_status := BatchCompleted,
                  batch_endTime := Some (clock ?env (clockReads st2))\<rparr>),
              Inr (clock ?env (clockReads st2) - clock ?env (clockReads ?st)))"
    by blast
  have clock: "clock ?env n = 1000 * int n" for n
    by (simp add: rejectingQueue_def offlineCollaborators_def)
  have "\<exists>st2 b2.
         fst (processBatchFile ?env defaultOptions (testFile ''A.md'')
               (fst (processBatchFile ?env defaultOptions (testFile ''B.md'')
                      (?st\<lparr>clockReads := 1\<rparr>,
                       testBatch\<lparr>batch_status := BatchProcessing,
                                 batch_startTime := Some 0\<rparr>)))) = (st2, b2)
       \<and> fst (processBatch ?env defaultOptions testBatch ?st)
           = (st2\<lparr>clockReads := Suc (clockReads st2)\<rparr>,
              b2\<lparr>batch_status := BatchCompleted,
                 batch_endTime := Some (1000 * int (clockReads st2))\<rparr>)"
    using loop result
    by (simp add: start clock processBatchFiles_fold del: processBatchFiles.simps)
  with continues completes reported rejected_file show ?thesis
    unfolding path by blast
qed

section \<open>The batches partition the file list\<close>

lemma getNextBatch_None: "getNextBatch opts files cursor st = None \<longleftrightarrow> length files \<le> fst cursor"
  by (simp add: getNextBatch_def Let_def)

lemma getNextBatch_Some:
  assumes "getNextBatch opts files cursor st = Some (b, cursor', st')"
  shows "fst cursor < length files" "fst cursor < fst cursor'" "fst cursor' \<le> length files"
    "batch_files b = take (fst cursor' - fst cursor) (drop (fst cursor) files)"
    "length (batch_files b) = fst cursor' - fst cursor"
    "int (length (batch_files b)) \<le> max 1 (maxBatchSize (throttling opts))"
    "batch_id b = snd cursor" "snd cursor' = Suc (snd cursor)"
    "st' = st\<lparr>batches := batches st @ [b]\<rparr>"
proof -
  from assms have lt: "fst cursor < length files"
    by (auto simp: getNextBatch_def split: if_splits)
  define size where "size = nat (max 1 (min (normalizedBatchSize opts st)
                                   (int (length files) - int (fst cursor))))"
  have bound: "normalizedBatchSize opts st \<le> maxBatchSize (throttling opts)"
    by (simp add: normalizedBatchSize_def)
  have rest: "1 \<le> int (length files) - int (fst cursor)"
    using lt by simp
  have "int size = max 1 (min (normalizedBatchSize opts st)
                             (int (length files) - int (fst cursor)))"
    by (simp add: size_def)
  with bound rest have "1 \<le> int size" "int size \<le> int (length files) - int (fst cursor)"
    "int size \<le> max 1 (maxBatchSize (throttling opts))"
    by arith+
  then have size: "1 \<le> size" "size \<le> length files - fst cursor"
    "int size \<le> max 1 (maxBatchSize (throttling opts))"
    by simp_all
  from assms lt have b: "batch_files b = take size (drop (fst cursor) files)"
    and c: "cursor' = (fst cursor + size, Suc (snd cursor))"
    and s: "st' = st\<lparr>batches := batches st @ [b]\<rparr>" and i: "batch_id b = snd cursor"
    by (auto simp: getNextBatch_def Let_def size_def)
  from c size show "fst cursor < fst cursor'" "fst cursor' \<le> length files"
    "snd cursor' = Suc (snd cursor)"
    by auto
  from b c show "batch_files b = take (fst cursor' - fst cursor) (drop (fst cursor) files)"
    by simp
  from b c size show "length (batch_files b) = fst cursor' - fst cursor"
    by simp
  from b size show "int (length (batch_files b)) \<le> max 1 (maxBatchSize (throttling opts))"
    by simp
  show "fst cursor < length files" "batch_id b = snd cursor" "st' = st\<lparr>batches := batches st @ [b]\<rparr>"
    by fact+
qed

lemma partitioned_claim:
  assumes "partitioned opts files before n shape" "n < n'" "n' \<le> length files"
    "int (n' - n) \<le> max 1 (maxBatchSize (throttling opts))"
  shows "partitioned opts files before n' (shape @ [take (n' - n) (drop n files)])"
proof -
  from assms(1) obtain parts where parts: "shape = before @ parts" "concat parts = take n files"
    "\<forall>p\<in>set parts. 1 \<le> length p \<and> int (length p) \<le> max 1 (maxBatchSize (throttling opts))"
    by (auto simp: partitioned_def)
  let ?slice = "take (n' - n) (drop n files)"
  have len: "length ?slice = n' - n"
    using assms(2,3) by simp
  have "take n' files = take n files @ ?slice"
    using assms(2) take_add [of n "n' - n" files] by simp
  with parts(2) have "concat (parts @ [?slice]) = take n' files"
    by simp
  moreover have "\<forall>p\<in>set (parts @ [?slice]).
      1 \<le> length p \<and> int (length p) \<le> max 1 (maxBatchSize (throttling opts))"
    using parts(3) len assms(2,4) by auto
  moreover have "shape @ [?slice] = before @ (parts @ [?slice])"
    using parts(1) by simp
  ultimately show ?thesis
    unfolding partitioned_def by blast
qed

lemma adjustBatchSize_batches [simp]: "batches (adjustBatchSize opts d n st) = batches st"
  by (simp add: adjustBatchSize_def Let_def)

lemma afterBatch_shape [simp]: "batch_shape (afterBatch opts d n st) = batch_shape st"
  by (simp add: afterBatch_def batch_shape_def Let_def)

lemma workerTurn_step:
  assumes turn: "workerTurn env opts files cursor worker st = (cursor', next_worker, st')"
    and worker: "fst worker < length (batch_shape st)"
      "batch_shape st ! fst worker = batch_files (snd worker)"
  shows "next_worker = None \<longrightarrow>
           cursor' = cursor \<and> batch_shape st' = batch_shape st \<and> length files \<le> fst cursor"
    and "\<forall>w. next_worker = Some w \<longrightarrow>
           fst cursor < fst cursor' \<and> fst cursor' \<le> length files
           \<and> int (fst cursor' - fst cursor) \<le> max 1 (maxBatchSize (throttling opts))
           \<and> batch_shape st' = batch_shape st @ [take (fst cursor' - fst cursor) (drop (fst cursor) files)]
           \<and> fst w = length (batch_shape st)
           \<and> batch_files (snd w) = take (fst cursor' - fst cursor) (drop (fst cursor) files)"
proof -
  obtain st1 b1 where run: "processBatch env opts (snd worker) st
       = ((st1, b1), Inr (clock env (clockReads st1 - 1) - clock env (clockReads st)))"
    and b1: "batch_files b1 = batch_files (snd worker)" and st1: "batches st1 = batches st"
    by (rule processBatch_completes [of env opts "snd worker" st]) blast
  let ?st2 = "st1\<lparr>batches := (batches st1)[fst worker := b1]\<rparr>"
  let ?st3 = "afterBatch opts (clock env (clockReads st1 - 1) - clock env (clockReads st))
                            (int (length (batch_files b1))) ?st2"
  have shape2: "batch_shape ?st2 = batch_shape st"
    using worker b1 st1
    by (simp add: batch_shape_def map_update list_update_same_conv)
  then have shape3: "batch_shape ?st3 = batch_shape st"
    by simp
  show "next_worker = None \<longrightarrow>
           cursor' = cursor \<and> batch_shape st' = batch_shape st \<and> length files \<le> fst cursor"
  proof
    assume none: "next_worker = None"
    show "cursor' = cursor \<and> batch_shape st' = batch_shape st \<and> length files \<le> fst cursor"
    proof (cases "getNextBatch opts files cursor ?st3")
      case None
      then have "length files \<le> fst cursor"
        by (simp add: getNextBatch_None)
      moreover from None turn run have "cursor' = cursor" "st' = ?st3"
        by (simp_all add: workerTurn_def Let_def)
      ultimately show ?thesis
        using shape3 by simp
    next
      case (Some triple)
      with turn run none show ?thesis
        by (cases triple) (simp add: workerTurn_def Let_def)
    qed
  qed
  show "\<forall>w. next_worker = Some w \<longrightarrow>
           fst cursor < fst cursor' \<and> fst cursor' \<le> length files
           \<and> int (fst cursor' - fst cursor) \<le> max 1 (maxBatchSize (throttling opts))
           \<and> batch_shape st' = batch_shape st @ [take (fst cursor' - fst cursor) (drop (fst cursor) files)]
           \<and> fst w = length (batch_shape st)
           \<and> batch_files (snd w) = take (fst cursor' - fst cursor) (drop (fst cursor) files)"
  proof (intro allI impI)
    fix w assume some: "next_worker = Some w"
    show "fst cursor < fst cursor' \<and> fst cursor' \<le> length files
           \<and> int (fst cursor' - fst cursor) \<le> max 1 (maxBatchSize (throttling opts))
           \<and> batch_shape st' = batch_shape st @ [take (fst cursor' - fst cursor) (drop (fst cursor) files)]
           \<and> fst w = length (batch_shape st)
           \<and> batch_files (snd w) = take (fst cursor' - fst cursor) (drop (fst cursor) files)"
    proof (cases "getNextBatch opts files cursor ?st3")
      case None
      with turn run some show ?thesis
        by (simp add: workerTurn_def Let_def)
    next
      case (Some triple)
      obtain b c s where triple: "triple = (b, c, s)"
        by (cases triple)
      with Some turn run some have eqs: "cursor' = c" "st' = s" "w = (length (batches ?st3), b)"
        by (auto simp: workerTurn_def Let_def)
      note facts = getNextBatch_Some [OF Some [unfolded triple]]
      from facts(9) have "batch_shape s = batch_shape ?st3 @ [batch_files b]"
        by (simp add: batch_shape_def)
      moreover have "length (batches ?st3) = length (batch_shape ?st3)"
        by (simp add: batch_shape_def)
      ultimately show ?thesis
        using facts(1-8) eqs shape3 by simp
    qed
  qed
qed

lemma workers_ok_append: "workers_ok workers shape \<Longrightarrow> workers_ok workers (shape @ [x])"
  by (auto simp: workers_ok_def nth_append)

lemma workers_ok_remove: "workers_ok workers shape \<Longrightarrow> workers_ok (remove_nth k workers) shape"
  by (auto simp: workers_ok_def remove_nth_def dest: in_set_takeD in_set_dropD)

lemma workers_ok_replace:
  assumes "workers_ok workers shape" "fst w = length shape" "batch_files (snd w) = x"
  shows "workers_ok (workers[k := w]) (shape @ [x])"
proof -
  from assms(2,3) have "fst w < length (shape @ [x]) \<and> (shape @ [x]) ! fst w = batch_files (snd w)"
    by simp
  with workers_ok_append [OF assms(1), of x] show ?thesis
    unfolding workers_ok_def by (metis insertE set_update_subset_insert subsetD)
qed

lemma processWorkers_partition:
  assumes "partitioned opts files before (fst cursor) (batch_shape st)"
    and "workers_ok workers (batch_shape st)"
    and "workers \<noteq> [] \<or> length files \<le> fst cursor"
  shows "partitioned opts files before (length files)
           (batch_shape (processWorkers env opts sched files turn cursor workers st))"
  using assms
proof (induction env opts sched files turn cursor workers st rule: processWorkers.induct)
  case (1 env opts sched files turn cursor workers st)
  show ?case
  proof (cases "workers = []")
    case True
    with "1.prems"(3) have "length files \<le> fst cursor" by simp
    with "1.prems"(1) True show ?thesis
      by (simp add: partitioned_def)
  next
    case False
    let ?k = "sched turn mod length workers"
    from False have k: "?k < length workers" by simp
    with "1.prems"(2) have worker: "fst (workers ! ?k) < length (batch_shape st)"
      "batch_shape st ! fst (workers ! ?k) = batch_files (snd (workers ! ?k))"
      by (auto simp: workers_ok_def)
    obtain cursor' next_worker st' where
      turn: "workerTurn env opts files cursor (workers ! ?k) st = (cursor', next_worker, st')"
      by (cases "workerTurn env opts files cursor (workers ! ?k) st") auto
    note step = workerTurn_step [OF turn worker]
    show ?thesis
    proof (cases next_worker)
      case None
      with step(1) have same: "cursor' = cursor" "batch_shape st' = batch_shape st"
        and exhausted: "length files \<le> fst cursor"
        by auto
      have "partitioned opts files before (length files)
              (batch_shape (processWorkers env opts sched files (Suc turn) cursor'
                 (remove_nth ?k workers) st'))"
      proof (rule "1.IH"(1) [OF False turn [symmetric] refl None])
        show "partitioned opts files before (fst cursor') (batch_shape st')"
          using "1.prems"(1) same by simp
        show "workers_ok (remove_nth ?k workers) (batch_shape st')"
          using "1.prems"(2) same by (simp add: workers_ok_remove)
        show "remove_nth ?k workers \<noteq> [] \<or> length files \<le> fst cursor'"
          using exhausted same by simp
      qed
      with False turn None show ?thesis
        by (simp del: processWorkers.simps add: processWorkers.simps [of env opts sched files turn cursor workers st])
    next
      case (Some w)
      with step(2) have facts: "fst cursor < fst cursor'" "fst cursor' \<le> length files"
        "int (fst cursor' - fst cursor) \<le> max 1 (maxBatchSize (throttling opts))"
        "batch_shape st' = batch_shape st @ [take (fst cursor' - fst cursor) (drop (fst cursor) files)]"
        "fst w = length (batch_shape st)"
        "batch_files (snd w) = take (fst cursor' - fst cursor) (drop (fst cursor) files)"
        by auto
      have "partitioned opts files before (length files)
              (batch_shape (processWorkers env opts sched files (Suc turn) cursor'
                 (workers[?k := w]) st'))"
      proof (rule "1.IH"(2) [OF False turn [symmetric] refl Some])
        show "partitioned opts files before (fst cursor') (batch_shape st')"
          using "1.prems"(1) facts by (simp add: partitioned_claim)
        show "workers_ok (workers[?k := w]) (batch_shape st')"
          using "1.prems"(2) facts by (simp add: workers_ok_replace)
        show "workers[?k := w] \<noteq> [] \<or> length files \<le> fst cursor'"
          using False by simp
      qed
      with False turn Some show ?thesis
        by (simp del: processWorkers.simps add: processWorkers.simps [of env opts sched files turn cursor workers st])
    qed
  qed
qed

lemma partitioned_getNextBatch:
  assumes "partitioned opts files before (fst cursor) (batch_shape st)"
    and "getNextBatch opts files cursor st = Some (b, cursor', st')"
  shows "partitioned opts files before (fst cursor') (batch_shape st')"
    and "batch_shape st' = batch_shape st @ [batch_files b]"
proof -
  note facts = getNextBatch_Some [OF assms(2)]
  from facts(9) show shape: "batch_shape st' = batch_shape st @ [batch_files b]"
    by (simp add: batch_shape_def)
  from facts(5,6) have "int (fst cursor' - fst cursor) \<le> max 1 (maxBatchSize (throttling opts))"
    by simp
  from partitioned_claim [OF assms(1) facts(2,3) this] shape facts(4)
  show "partitioned opts files before (fst cursor') (batch_shape st')"
    by simp
qed

lemma startWorkers_partition:
  assumes "partitioned opts files before (fst cursor) (batch_shape st)"
    and "startWorkers opts files n cursor st = (cursor', workers, st')"
  shows "partitioned opts files before (fst cursor') (batch_shape st')
    \<and> workers_ok workers (batch_shape st')
    \<and> (\<exists>more. batch_shape st' = batch_shape st @ more)
    \<and> (0 < n \<and> fst cursor < length files \<longrightarrow> workers \<noteq> [])"
  using assms
proof (induction n arbitrary: cursor st cursor' workers st')
  case 0
  then show ?case by (simp add: workers_ok_def)
next
  case (Suc n)
  show ?case
  proof (cases "getNextBatch opts files cursor st")
    case None
    with Suc.prems show ?thesis
      by (auto simp: workers_ok_def getNextBatch_None)
  next
    case (Some triple)
    obtain b c s where triple: "triple = (b, c, s)"
      by (cases triple)
    obtain c2 ws s2 where rest: "startWorkers opts files n c s = (c2, ws, s2)"
      by (cases "startWorkers opts files n c s")
    from Suc.prems(2) Some triple rest
    have eqs: "cursor' = c2" "workers = (length (batches st), b) # ws" "st' = s2"
      by simp_all
    note claim = partitioned_getNextBatch [OF Suc.prems(1) Some [unfolded triple]]
    from Suc.IH [OF claim(1) rest] obtain more where
      ih: "partitioned opts files before (fst c2) (batch_shape s2)"
        "workers_ok ws (batch_shape s2)" "batch_shape s2 = batch_shape s @ more"
      by blast
    from ih(3) claim(2) have shape: "batch_shape s2 = batch_shape st @ batch_files b # more"
      by simp
    then have "workers_ok [(length (batches st), b)] (batch_shape s2)"
      by (simp add: workers_ok_def batch_shape_def [of st] nth_append)
    with ih(2) have "workers_ok ((length (batches st), b) # ws) (batch_shape s2)"
      by (simp add: workers_ok_def)
    with ih(1) shape eqs show ?thesis
      by simp
  qed
qed

lemma partitioned_start: "partitioned opts files (batch_shape st) 0 (batch_shape st)"
  by (simp add: partitioned_def)

lemma processFilesAdaptive_partition:
  "partitioned opts files (batch_shape st) (length files)
     (batch_shape (processFilesAdaptive env opts sched files st))"
proof (cases "files = []")
  case True
  then show ?thesis
    by (simp add: processFilesAdaptive_def partitioned_def)
next
  case False
  let ?n = "nat (max 1 (maxConcurrentBatches opts))"
  obtain cursor workers st1 where
    start: "startWorkers opts files ?n (0, 0) st = (cursor, workers, st1)"
    by (cases "startWorkers opts files ?n (0, 0) st")
  have "partitioned opts files (batch_shape st) (fst (0::nat, 0::nat)) (batch_shape st)"
    by (simp add: partitioned_start)
  from startWorkers_partition [OF this start] False
  have "partitioned opts files (batch_shape st) (fst cursor) (batch_shape st1)"
    "workers_ok workers (batch_shape st1)" "workers \<noteq> []"
    by auto
  then have "partitioned opts files (batch_shape st) (length files)
               (batch_shape (processWorkers env opts sched files 0 cursor workers st1))"
    by (intro processWorkers_partition) auto
  with False start show ?thesis
    by (simp add: processFilesAdaptive_def)
qed

lemma claimWith_partition:
  assumes "partitioned opts files before (fst cursor) (batch_shape st)"
    and "claimWith opts files sizes cursor st = (cursor', st')"
    and "fst cursor \<le> length files"
  shows "partitioned opts files before (fst cursor') (batch_shape st')
    \<and> (length files \<le> fst cursor + length sizes \<longrightarrow> length files \<le> fst cursor')"
  using assms
proof (induction sizes arbitrary: cursor st)
  case Nil
  then show ?case by simp
next
  case (Cons p ps)
  have shape: "batch_shape (st\<lparr>adaptiveBatchSize := p\<rparr>) = batch_shape st"
    by (simp add: batch_shape_def)
  show ?case
  proof (cases "getNextBatch opts files cursor (st\<lparr>adaptiveBatchSize := p\<rparr>)")
    case None
    with Cons.prems show ?thesis
      by (simp add: getNextBatch_None)
  next
    case (Some triple)
    obtain b c s where triple: "triple = (b, c, s)"
      by (cases triple)
    from Cons.prems(1) shape
    have "partitioned opts files before (fst cursor) (batch_shape (st\<lparr>adaptiveBatchSize := p\<rparr>))"
      by simp
    note claim = partitioned_getNextBatch [OF this Some [unfolded triple]]
    note facts = getNextBatch_Some [OF Some [unfolded triple]]
    from Cons.prems(2) Some triple have "claimWith opts files ps c s = (cursor', st')"
      by simp
    from Cons.IH [OF claim(1) this facts(3)] facts(2) show ?thesis
      by auto
  qed
qed

lemma singleton_parts:
  "\<forall>p\<in>set parts. length p = 1 \<Longrightarrow> parts = map (\<lambda>x. [x]) (concat parts)"
proof (induction parts)
  case Nil
  show ?case by simp
next
  case (Cons p parts)
  from Cons.prems have "length p = 1" by simp
  then obtain x where "p = [x]" by (cases p) auto
  with Cons show ?case by simp
qed

text \<open>
  Claim C9, as amended. The batches that \<^verbatim>\<open>processFilesAdaptive\<close> adds to
  \<^verbatim>\<open>this.batches\<close> are, in order, consecutive slices of the file list whose
  concatenation is the list, each of at least 1 and at most \<open>max(1, maxBatchSize)\<close>
  files, for every number of concurrent batches, every scheduling of the workers and
  all collaborators (hence all durations). The same holds when the adaptive batch size
  takes arbitrary values between the claims, and each single claim takes the next slice
  of the list with a size within these bounds. With \<open>maxBatchSize\<close> at least 1 the upper
  bound is \<open>maxBatchSize\<close>.
\<close>

theorem adaptive_batches_partition_files:
  "(\<exists>parts.
      map batch_files (batches (processFilesAdaptive env opts sched files st))
        = map batch_files (batches st) @ parts
      \<and> concat parts = files
      \<and> (\<forall>p\<in>set parts. 1 \<le> length p
            \<and> int (length p) \<le> max 1 (maxBatchSize (throttling opts))))
   \<and> (claimWith opts files sizes (0, 0) st = (cursor', st') \<and> length files \<le> length sizes \<longrightarrow>
        (\<exists>parts.
           map batch_files (batches st') = map batch_files (batches st) @ parts
           \<and> concat parts = files
           \<and> (\<forall>p\<in>set parts. 1 \<le> length p
                 \<and> int (length p) \<le> max 1 (maxBatchSize (throttling opts)))))
   \<and> (getNextBatch opts files cursor st = Some (batch, next_cursor, st'') \<longrightarrow>
        batch_files batch = take (fst next_cursor - fst cursor) (drop (fst cursor) files)
        \<and> 1 \<le> length (batch_files batch)
        \<and> int (length (batch_files batch)) \<le> max 1 (maxBatchSize (throttling opts))
        \<and> batches st'' = batches st @ [batch])
   \<and> (1 \<le> maxBatchSize (throttling opts) \<longrightarrow>
        (\<exists>parts.
           map batch_files (batches (processFilesAdaptive env opts sched files st))
             = map batch_files (batches st) @ parts
           \<and> concat parts = files
           \<and> (\<forall>p\<in>set parts. 1 \<le> length p
                 \<and> int (length p) \<le> maxBatchSize (throttling opts))))"
proof (intro conjI impI)
  from processFilesAdaptive_partition [of opts files st env sched]
  show run: "\<exists>parts.
      map batch_files (batches (processFilesAdaptive env opts sched files st))
        = map batch_files (batches st) @ parts
      \<and> concat parts = files
      \<and> (\<forall>p\<in>set parts. 1 \<le> length p
            \<and> int (length p) \<le> max 1 (maxBatchSize (throttling opts)))"
    by (simp add: partitioned_def batch_shape_def)
  assume "1 \<le> maxBatchSize (throttling opts)"
  hence bound: "max 1 (maxBatchSize (throttling opts)) = maxBatchSize (throttling opts)"
    by simp
  from run [unfolded bound]
  show "\<exists>parts.
      map batch_files (batches (processFilesAdaptive env opts sched files st))
        = map batch_files (batches st) @ parts
      \<and> concat parts = files
      \<and> (\<forall>p\<in>set parts. 1 \<le> length p \<and> int (length p) \<le> maxBatchSize (throttling opts))" .
next
  assume a: "claimWith opts files sizes (0, 0) st = (cursor', st') \<and> length files \<le> length sizes"
  have "partitioned opts files (batch_shape st) (fst (0::nat, 0::nat)) (batch_shape st)"
    by (simp add: partitioned_start)
  from claimWith_partition [OF this conjunct1 [OF a]] a
  have "partitioned opts files (batch_shape st) (fst cursor') (batch_shape st')"
    and "length files \<le> fst cursor'"
    by simp_all
  then show "\<exists>parts.
           map batch_files (batches st') = map batch_files (batches st) @ parts
           \<and> concat parts = files
           \<and> (\<forall>p\<in>set parts. 1 \<le> length p
                 \<and> int (length p) \<le> max 1 (maxBatchSize (throttling opts)))"
    by (simp add: partitioned_def batch_shape_def)
next
  assume a: "getNextBatch opts files cursor st = Some (batch, next_cursor, st'')"
  note facts = getNextBatch_Some [OF a]
  from facts(1,2,5) have "1 \<le> length (batch_files batch)"
    by simp
  with facts show "batch_files batch = take (fst next_cursor - fst cursor) (drop (fst cursor) files)"
    "1 \<le> length (batch_files batch)"
    "int (length (batch_files batch)) \<le> max 1 (maxBatchSize (throttling opts))"
    "batches st'' = batches st @ [batch]"
    by simp_all
qed

text \<open>
  The theorem on three files with batches of one or two files: under the sizes 1, 5, 1
  the claims are \<^verbatim>\<open>A.md\<close> and then \<^verbatim>\<open>B.md\<close>, \<^verbatim>\<open>C.md\<close>.
\<close>

theorem adaptive_batches_partition_files_witness:
  "1 \<le> maxBatchSize (throttling smallBatches)
   \<and> map batch_files (batches (snd (claimWith smallBatches
        [testFile ''A.md'', testFile ''B.md'', testFile ''C.md''] [1, 5, 1] (0, 0)
        (initialState smallBatches))))
     = [[testFile ''A.md''], [testFile ''B.md'', testFile ''C.md'']]"
  using adaptive_batches_partition_files [where opts = smallBatches
      and files = "[testFile ''A.md'', testFile ''B.md'', testFile ''C.md'']"
      and sizes = "[1, 5, 1]" and st = "initialState smallBatches"]
  by (simp add: smallBatches_def defaultOptions_def defaultThrottling_def initialState_def
      getNextBatch_def normalizedBatchSize_def Let_def)

text \<open>
  Claim C9 as stated fails for \<open>maxBatchSize = 0\<close>, which the constructor accepts: the
  size of a batch is never below 1, so the two files of the list are run as two batches
  of one file each, more than \<open>maxBatchSize\<close>.
\<close>

theorem batch_above_maxBatchSize_counterexample:
  "maxBatchSize (throttling zeroMaxOptions) = 0
   \<and> map batch_files (batches (processFilesAdaptive offlineCollaborators zeroMaxOptions
        (\<lambda>turn. 0) [testFile ''A.md'', testFile ''B.md''] (initialState zeroMaxOptions)))
     = [[testFile ''A.md''], [testFile ''B.md'']]
   \<and> map batch_files (batches (snd (claimWith zeroMaxOptions
        [testFile ''A.md'', testFile ''B.md''] [50, 50] (0, 0) (initialState zeroMaxOptions))))
     = [[testFile ''A.md''], [testFile ''B.md'']]"
proof (intro conjI)
  show zero: "maxBatchSize (throttling zeroMaxOptions) = 0"
    by (simp add: zeroMaxOptions_def)
  let ?files = "[testFile ''A.md'', testFile ''B.md'']"
  let ?st = "initialState zeroMaxOptions"
  from processFilesAdaptive_partition [of zeroMaxOptions ?files ?st offlineCollaborators "\<lambda>turn. 0"]
  obtain parts where
    shape: "batch_shape (processFilesAdaptive offlineCollaborators zeroMaxOptions (\<lambda>turn. 0)
              ?files ?st) = batch_shape ?st @ parts"
    and whole: "concat parts = take (length ?files) ?files"
    and sizes: "\<forall>p\<in>set parts. 1 \<le> length p
                  \<and> int (length p) \<le> max 1 (maxBatchSize (throttling zeroMaxOptions))"
    unfolding partitioned_def by blast
  from sizes have "\<forall>p\<in>set parts. length p = 1"
    unfolding zero by auto
  from singleton_parts [OF this] whole have "parts = [[testFile ''A.md''], [testFile ''B.md'']]"
    by simp
  with shape show "map batch_files (batches (processFilesAdaptive offlineCollaborators
        zeroMaxOptions (\<lambda>turn. 0) ?files ?st)) = [[testFile ''A.md''], [testFile ''B.md'']]"
    by (simp add: batch_shape_def initialState_def)
  show "map batch_files (batches (snd (claimWith zeroMaxOptions ?files [50, 50] (0, 0) ?st)))
     = [[testFile ''A.md''], [testFile ''B.md'']]"
    by (simp add: zeroMaxOptions_def defaultOptions_def defaultThrottling_def initialState_def
        getNextBatch_def normalizedBatchSize_def Let_def)
qed

section \<open>The bulk run is skipped when the store holds records\<close>

text \<open>
  Claim C5. When a remote store is configured and \<^verbatim>\<open>getFileCount\<close> answers a count
  other than zero, \<^verbatim>\<open>startSync\<close> returns normally having made that one call and
  nothing else: its state is the one it was called in with \<^verbatim>\<open>isRunning\<close> cleared, and
  the result is the same whatever the vault's file list.
\<close>

theorem startSync_skips_when_store_has_records:
  assumes "supabaseService env = Some sb" "getFileCount sb (calls st) = Inr n" "n \<noteq> 0"
  shows "startSync env opts sched st
           = (st\<lparr>isRunning := False, calls := calls st @ [GetFileCount]\<rparr>, Inr ())
    \<and> startSync (env\<lparr>getMarkdownFiles := files\<rparr>) opts sched st = startSync env opts sched st"
  using assms by (simp add: startSync_def startSync_try_def record_call_def)

text \<open>
  The theorem with a store that counts five records; with a store that counts none the
  run goes on to read the vault's file list.
\<close>

theorem startSync_skips_when_store_has_records_witness:
  "startSync (onlineCollaborators 5) defaultOptions (\<lambda>turn. 0) (initialState defaultOptions)
     = ((initialState defaultOptions)\<lparr>calls := [GetFileCount]\<rparr>, Inr ())
   \<and> startSync ((onlineCollaborators 5)\<lparr>getMarkdownFiles := []\<rparr>) defaultOptions (\<lambda>turn. 0)
        (initialState defaultOptions)
     = startSync (onlineCollaborators 5) defaultOptions (\<lambda>turn. 0) (initialState defaultOptions)
   \<and> calls (fst (startSync ((onlineCollaborators 0)\<lparr>getMarkdownFiles := []\<rparr>) defaultOptions
        (\<lambda>turn. 0) (initialState defaultOptions)))
     = [GetFileCount, GetMarkdownFiles]"
  using startSync_skips_when_store_has_records [of "onlineCollaborators 5"
      "\<lparr>getFileCount = (\<lambda>cs. Inr 5), updateFileVectorizationStatus = (\<lambda>cs md status. None)\<rparr>"
      "initialState defaultOptions" 5 defaultOptions "\<lambda>turn. 0" "[]"]
  by (simp add: onlineCollaborators_def offlineCollaborators_def initialState_def
      startSync_def startSync_try_def startSync_run_def record_call_def
      filterExcludedFiles_def)

section \<open>Replaying deletes without the remote store\<close>

lemma is_remote_call_filter_append [simp]:
  "filter is_remote_call (xs @ ys) = filter is_remote_call xs @ filter is_remote_call ys"
  by simp

lemma replayOperation_unreachable:
  "filter is_remote_call (snd (replayOperation env False op cs)) = filter is_remote_call cs"
  by (simp add: replayOperation_def split: option.splits)

lemma processOperation_unreachable:
  "filter is_remote_call (oq_calls (processOperation env False op st))
     = filter is_remote_call (oq_calls st)"
  using replayOperation_unreachable [of env op "oq_calls st"]
  by (cases "replayOperation env False op (oq_calls st)")
     (auto simp: processOperation_def split: replay_outcome.splits)

lemma processOperations_unreachable:
  "filter is_remote_call (oq_calls (processOperations env False ops st))
     = filter is_remote_call (oq_calls st)"
  by (induction ops arbitrary: st) (simp_all add: processOperation_unreachable)

text \<open>
  Claim C8, as amended. Replaying a pending DELETE operation while the remote store is
  unreachable makes exactly one call, the sync-file update with status OK for the file
  identity of the operation, and none to the remote store. When that update succeeds
  the operation leaves the durable queue; when it fails the failure is reported and the
  queue is left as it was. A whole pass of \<^verbatim>\<open>processQueue\<close> without the remote store
  calls the remote store for no operation.
\<close>

theorem offline_delete_falls_back_to_sync_file:
  assumes "operationType op = OpDelete"
  shows "snd (replayOperation env False op cs)
           = cs @ [SyncFileUpdate (op_fileId op) ''OK'' (op_metadata op)]
    \<and> (syncFileUpdate env (oq_calls st) (op_fileId op) ''OK'' (op_metadata op) = None \<longrightarrow>
         processOperation env False op st
           = st\<lparr>oq_queue := filter (\<lambda>queued. op_id queued \<noteq> op_id op) (oq_queue st),
                oq_calls := oq_calls st @ [SyncFileUpdate (op_fileId op) ''OK'' (op_metadata op)]\<rparr>)
    \<and> (\<forall>e. syncFileUpdate env (oq_calls st) (op_fileId op) ''OK'' (op_metadata op) = Some e \<longrightarrow>
         processOperation env False op st
           = st\<lparr>oq_calls := oq_calls st @ [SyncFileUpdate (op_fileId op) ''OK'' (op_metadata op),
                                            ReportError e (op_id op)]\<rparr>)
    \<and> filter is_remote_call (oq_calls (processQueue env False st))
         = filter is_remote_call (oq_calls st)"
proof (intro conjI impI allI)
  show "snd (replayOperation env False op cs)
           = cs @ [SyncFileUpdate (op_fileId op) ''OK'' (op_metadata op)]"
    using assms by (simp add: replayOperation_def)
  show "processOperation env False op st
           = st\<lparr>oq_queue := filter (\<lambda>queued. op_id queued \<noteq> op_id op) (oq_queue st),
                oq_calls := oq_calls st @ [SyncFileUpdate (op_fileId op) ''OK'' (op_metadata op)]\<rparr>"
    if "syncFileUpdate env (oq_calls st) (op_fileId op) ''OK'' (op_metadata op) = None"
    using assms that by (simp add: processOperation_def replayOperation_def)
  show "processOperation env False op st
           = st\<lparr>oq_calls := oq_calls st @ [SyncFileUpdate (op_fileId op) ''OK'' (op_metadata op),
                                            ReportError e (op_id op)]\<rparr>"
    if "syncFileUpdate env (oq_calls st) (op_fileId op) ''OK'' (op_metadata op) = Some e" for e
    using assms that by (simp add: processOperation_def replayOperation_def)
  show "filter is_remote_call (oq_calls (processQueue env False st))
         = filter is_remote_call (oq_calls st)"
    by (simp add: processQueue_def processOperations_unreachable)
qed

text \<open>
  The second test of the offline queue: one pending delete of \<^verbatim>\<open>Note.md\<close>, a sync
  file that resolves.
\<close>

theorem offline_delete_falls_back_to_sync_file_witness:
  "processQueue resolvingCollaborators False
      \<lparr>oq_queue = [deleteOperation ''op-2'' ''Note.md''], oq_calls = []\<rparr>
     = \<lparr>oq_queue = [], oq_calls = [SyncFileUpdate ''Note.md'' ''OK'' None]\<rparr>
   \<and> processOperation resolvingCollaborators False (deleteOperation ''op-2'' ''Note.md'')
      \<lparr>oq_queue = [deleteOperation ''op-2'' ''Note.md''], oq_calls = []\<rparr>
     = \<lparr>oq_queue = [], oq_calls = [SyncFileUpdate ''Note.md'' ''OK'' None]\<rparr>"
  using offline_delete_falls_back_to_sync_file [of "deleteOperation ''op-2'' ''Note.md''"
      resolvingCollaborators "[]" "\<lparr>oq_queue = [deleteOperation ''op-2'' ''Note.md''], oq_calls = []\<rparr>"]
  by (simp add: processQueue_def processOperation_def replayOperation_def deleteOperation_def
      resolvingCollaborators_def)

text \<open>
  Claim C8 as stated fails when the sync-file update itself fails: the call is made and
  reported, and the operation stays in the durable queue.
\<close>

theorem offline_delete_sync_file_failure_counterexample:
  "processQueue rejectingSyncFile False
      \<lparr>oq_queue = [deleteOperation ''op-2'' ''Note.md''], oq_calls = []\<rparr>
     = \<lparr>oq_queue = [deleteOperation ''op-2'' ''Note.md''],
        oq_calls = [SyncFileUpdate ''Note.md'' ''OK'' None,
                    ReportError (ErrorObject ''sync file is locked'') ''op-2'']\<rparr>"
  by (simp add: processQueue_def processOperation_def replayOperation_def deleteOperation_def
      rejectingSyncFile_def)

end
